(* ===== verification/GoStrings.thy ===== *)
theory GoStrings
  imports Prelude
begin

text \<open>
  The string operations of Go's standard library that the service calls: package strings
  (HasPrefix, Contains, Split, Join, ToLower, EqualFold, TrimSpace), the UTF-8 decoding
  behind them, and the decimal conversions of package strconv.

  Unicode case mapping beyond ASCII is table data of package unicode; the tables are the
  argument \<open>unicode_tables\<close>, and only runes from 128 upwards are looked up in them.
\<close>

section \<open>Prefixes, substrings, splitting\<close>

definition hasPrefix :: "string \<Rightarrow> string \<Rightarrow> bool" where
  "hasPrefix s p \<longleftrightarrow> take (length p) s = p"

fun contains :: "string \<Rightarrow> string \<Rightarrow> bool" where
  "contains [] sub = (sub = [])"
| "contains (c # s) sub = (hasPrefix (c # s) sub \<or> contains s sub)"

fun split_on :: "char \<Rightarrow> string \<Rightarrow> string list" where
  "split_on sep [] = [[]]"
| "split_on sep (c # cs) =
     (if c = sep then [] # split_on sep cs
      else (case split_on sep cs of [] \<Rightarrow> [[c]] | p # ps \<Rightarrow> (c # p) # ps))"

fun join_with :: "string \<Rightarrow> string list \<Rightarrow> string" where
  "join_with sep [] = []"
| "join_with sep [p] = p"
| "join_with sep (p # q # ps) = p @ sep @ join_with sep (q # ps)"

text \<open>strings.LastIndexByte for the colon, and strings.IndexByte.\<close>

fun last_colon :: "string \<Rightarrow> nat option" where
  "last_colon [] = None"
| "last_colon (c # s) =
     (case last_colon s of
        Some i \<Rightarrow> Some (Suc i)
      | None \<Rightarrow> if c = CHR '':'' then Some 0 else None)"

fun index_of :: "char \<Rightarrow> string \<Rightarrow> nat option" where
  "index_of x [] = None"
| "index_of x (c # s) = (if c = x then Some 0 else map_option Suc (index_of x s))"

lemma hasPrefix_iff: "hasPrefix s p \<longleftrightarrow> (\<exists>t. s = p @ t)"
proof
  assume "hasPrefix s p"
  then have "s = p @ drop (length p) s"
    unfolding hasPrefix_def by (metis append_take_drop_id)
  then show "\<exists>t. s = p @ t" by blast
qed (auto simp: hasPrefix_def)

lemma hasPrefix_Cons_Cons [simp]: "hasPrefix (c # s) (d # p) \<longleftrightarrow> c = d \<and> hasPrefix s p"
  by (auto simp: hasPrefix_def)

lemma hasPrefix_Nil [simp]: "hasPrefix s []" "hasPrefix [] (d # p) \<longleftrightarrow> False"
  by (auto simp: hasPrefix_def)

lemma hasPrefix_append [simp]: "hasPrefix (p @ t) p"
  by (simp add: hasPrefix_def)

lemma contains_iff: "contains s sub \<longleftrightarrow> (\<exists>u v. s = u @ sub @ v)"
proof (induction s)
  case (Cons c s)
  show ?case
    using Cons.IH by (auto simp: hasPrefix_iff Cons_eq_append_conv)
qed auto

lemma split_on_ne [simp]: "split_on sep s \<noteq> []"
  by (induction s) (auto split: list.splits)

lemma split_on_no_sep: "sep \<notin> set s \<Longrightarrow> split_on sep s = [s]"
  by (induction s) auto

lemma split_on_append: "split_on sep (s @ sep # t) = split_on sep s @ split_on sep t"
proof (induction s)
  case (Cons c s)
  then show ?case by (cases "split_on sep s") auto
qed simp

lemma join_with_Cons: "ps \<noteq> [] \<Longrightarrow> join_with sep (p # ps) = p @ sep @ join_with sep ps"
  by (cases ps) auto

lemma join_split: "join_with [sep] (split_on sep s) = s"
proof (induction s)
  case (Cons c s)
  obtain p ps where ps: "split_on sep s = p # ps"
    by (cases "split_on sep s") auto
  show ?case
  proof (cases "c = sep")
    case True
    with Cons show ?thesis by (simp add: join_with_Cons)
  next
    case False
    with Cons ps show ?thesis by (cases ps) (auto simp: join_with_Cons)
  qed
qed simp

section \<open>UTF-8\<close>

text \<open>
  A Go string holds arbitrary bytes; ranging over it decodes runes, and a byte that starts
  no valid sequence is the replacement rune 65533 of width 1.
\<close>

definition rune_error :: nat where "rune_error = 65533"

definition utf8_width :: "nat \<Rightarrow> nat" where
  "utf8_width b =
     (if b < 128 then 1
      else if 194 \<le> b \<and> b \<le> 223 then 2
      else if 224 \<le> b \<and> b \<le> 239 then 3
      else if 240 \<le> b \<and> b \<le> 244 then 4
      else 0)"

definition utf8_second_ok :: "nat \<Rightarrow> nat \<Rightarrow> bool" where
  "utf8_second_ok b0 b1 \<longleftrightarrow>
     (if b0 = 224 then 160 else if b0 = 240 then 144 else 128) \<le> b1 \<and>
     b1 \<le> (if b0 = 237 then 159 else if b0 = 244 then 143 else 191)"

definition utf8_cont :: "nat \<Rightarrow> bool" where
  "utf8_cont b \<longleftrightarrow> 128 \<le> b \<and> b \<le> 191"

fun decode_rune_bytes :: "nat list \<Rightarrow> nat \<times> nat" where
  "decode_rune_bytes [] = (rune_error, 0)"
| "decode_rune_bytes (b0 # bs) =
     (case (utf8_width b0, bs) of
        (Suc 0, _) \<Rightarrow> (b0, 1)
      | (Suc (Suc 0), b1 # _) \<Rightarrow>
          if utf8_second_ok b0 b1 then ((b0 - 192) * 64 + (b1 - 128), 2) else (rune_error, 1)
      | (Suc (Suc (Suc 0)), b1 # b2 # _) \<Rightarrow>
          if utf8_second_ok b0 b1 \<and> utf8_cont b2
          then ((b0 - 224) * 4096 + (b1 - 128) * 64 + (b2 - 128), 3) else (rune_error, 1)
      | (Suc (Suc (Suc (Suc 0))), b1 # b2 # b3 # _) \<Rightarrow>
          if utf8_second_ok b0 b1 \<and> utf8_cont b2 \<and> utf8_cont b3
          then ((b0 - 240) * 262144 + (b1 - 128) * 4096 + (b2 - 128) * 64 + (b3 - 128), 4)
          else (rune_error, 1)
      | _ \<Rightarrow> (rune_error, 1))"

definition decode_rune :: "string \<Rightarrow> nat \<times> nat" where
  "decode_rune s = decode_rune_bytes (map of_char (take 4 s))"

function runes :: "string \<Rightarrow> (nat \<times> string) list" where
  "runes [] = []"
| "runes (c # cs) =
     (case decode_rune (c # cs) of (r, n) \<Rightarrow> (r, c # take (n - 1) cs) # runes (drop (n - 1) cs))"
  by pat_completeness auto
termination by (relation "measure length") auto

definition ascii :: "string \<Rightarrow> bool" where
  "ascii s \<longleftrightarrow> list_all (\<lambda>c. of_char c < (128 :: nat)) s"

lemma ascii_simps [simp]:
  "ascii []" "ascii (c # s) \<longleftrightarrow> of_char c < (128 :: nat) \<and> ascii s"
  "ascii (s @ t) \<longleftrightarrow> ascii s \<and> ascii t"
  by (auto simp: ascii_def)

lemma decode_rune_ascii: "of_char c < (128 :: nat) \<Longrightarrow> decode_rune (c # s) = (of_char c, 1)"
  by (simp add: decode_rune_def utf8_width_def)

lemma runes_ascii_Cons:
  "of_char c < (128 :: nat) \<Longrightarrow> runes (c # s) = (of_char c, [c]) # runes s"
  by (simp add: decode_rune_ascii)

declare runes.simps(2) [simp del]

lemma runes_ascii: "ascii s \<Longrightarrow> runes s = map (\<lambda>c. (of_char c, [c])) s"
  by (induction s) (simp_all add: runes_ascii_Cons)

lemma concat_runes: "concat (map snd (runes s)) = s"
  by (induction s rule: runes.induct) (auto simp: runes.simps(2) split: prod.splits)

definition encode_rune :: "nat \<Rightarrow> string" where
  "encode_rune r0 =
     (let r = (if r0 > 1114111 \<or> 55296 \<le> r0 \<and> r0 \<le> 57343 then rune_error else r0) in
      map char_of
       (if r < 128 then [r]
        else if r < 2048 then [192 + r div 64, 128 + r mod 64]
        else if r < 65536 then [224 + r div 4096, 128 + (r div 64) mod 64, 128 + r mod 64]
        else [240 + r div 262144, 128 + (r div 4096) mod 64, 128 + (r div 64) mod 64,
              128 + r mod 64]))"

lemma encode_rune_ascii: "of_char c < (128 :: nat) \<Longrightarrow> encode_rune (of_char c) = [c]"
  by (simp add: encode_rune_def Let_def)

section \<open>Case folding and trimming\<close>

text \<open>
  \<open>uc_lower\<close> stands for the tables behind unicode.ToLower, \<open>uc_fold a b\<close> for
  "b is in the unicode.SimpleFold orbit of a" (asked with the smaller rune first).
\<close>

record unicode_tables =
  uc_lower :: "nat \<Rightarrow> nat"
  uc_fold :: "nat \<Rightarrow> nat \<Rightarrow> bool"

definition ascii_lower :: "nat \<Rightarrow> nat" where
  "ascii_lower r = (if 65 \<le> r \<and> r \<le> 90 then r + 32 else r)"

definition rune_lower :: "unicode_tables \<Rightarrow> nat \<Rightarrow> nat" where
  "rune_lower uc r = (if r < 128 then ascii_lower r else uc_lower uc r)"

definition lower_char :: "char \<Rightarrow> char" where
  "lower_char c = char_of (ascii_lower (of_char c))"

definition toLower :: "unicode_tables \<Rightarrow> string \<Rightarrow> string" where
  "toLower uc s =
     (if ascii s then map lower_char s
      else concat (map (\<lambda>(r, _). encode_rune (rune_lower uc r)) (runes s)))"

definition rune_fold_eq :: "unicode_tables \<Rightarrow> nat \<Rightarrow> nat \<Rightarrow> bool" where
  "rune_fold_eq uc a b \<longleftrightarrow>
     a = b \<or>
     (if max a b < 128 then ascii_lower a = ascii_lower b else uc_fold uc (min a b) (max a b))"

definition equalFold :: "unicode_tables \<Rightarrow> string \<Rightarrow> string \<Rightarrow> bool" where
  "equalFold uc s t = list_all2 (rune_fold_eq uc) (map fst (runes s)) (map fst (runes t))"

definition is_space_rune :: "nat \<Rightarrow> bool" where
  "is_space_rune r \<longleftrightarrow>
     r \<in> {9, 10, 11, 12, 13, 32, 133, 160, 5760, 8232, 8233, 8239, 8287, 12288} \<or>
     8192 \<le> r \<and> r \<le> 8202"

definition trimSpace :: "string \<Rightarrow> string" where
  "trimSpace s =
     concat (map snd (rev (dropWhile (is_space_rune \<circ> fst)
       (rev (dropWhile (is_space_rune \<circ> fst) (runes s))))))"

lemma ascii_lower_bound: "r < 128 \<Longrightarrow> ascii_lower r < 128"
  by (simp add: ascii_lower_def)

lemma of_char_lower_char:
  "of_char c < (128 :: nat) \<Longrightarrow> of_char (lower_char c) = ascii_lower (of_char c)"
  using ascii_lower_bound [of "of_char c"] by (simp add: lower_char_def)

lemma toLower_ascii_eq: "ascii s \<Longrightarrow> toLower uc s = map lower_char s"
  by (simp add: toLower_def)

lemma equalFold_refl: "equalFold uc s s"
  by (simp add: equalFold_def list_all2_same rune_fold_eq_def)

lemma equalFold_sym: "equalFold uc s t \<longleftrightarrow> equalFold uc t s"
proof -
  have "rune_fold_eq uc a b = rune_fold_eq uc b a" for a b
    by (auto simp: rune_fold_eq_def max.commute min.commute)
  then have "list_all2 (rune_fold_eq uc) xs ys = list_all2 (rune_fold_eq uc) ys xs" for xs ys
    by (simp add: list_all2_conv_all_nth) metis
  then show ?thesis by (simp add: equalFold_def)
qed

lemma equalFold_ascii:
  assumes "ascii s" "ascii t"
  shows "equalFold uc s t \<longleftrightarrow> map lower_char s = map lower_char t"
proof -
  have "rune_fold_eq uc (of_char c) (of_char d) \<longleftrightarrow> lower_char c = lower_char d"
    if "of_char c < (128 :: nat)" "of_char d < (128 :: nat)" for c d
  proof -
    have "lower_char c = lower_char d \<longleftrightarrow> ascii_lower (of_char c) = ascii_lower (of_char d)"
      using that by (metis of_char_lower_char lower_char_def)
    with that show ?thesis by (auto simp: rune_fold_eq_def)
  qed
  with assms show ?thesis
    by (induction s t rule: list_induct2')
      (simp_all add: equalFold_def runes_ascii_Cons)
qed

section \<open>Decimal numbers\<close>

definition digit_char :: "nat \<Rightarrow> char" where
  "digit_char d = char_of (48 + d)"

definition is_digit :: "char \<Rightarrow> bool" where
  "is_digit c \<longleftrightarrow> 48 \<le> (of_char c :: nat) \<and> (of_char c :: nat) \<le> 57"

definition digit_val :: "char \<Rightarrow> nat" where
  "digit_val c = of_char c - 48"

fun nat_str :: "nat \<Rightarrow> string" where
  "nat_str n = (if n < 10 then [digit_char n] else nat_str (n div 10) @ [digit_char (n mod 10)])"

declare nat_str.simps [simp del]

definition itoa :: "int \<Rightarrow> string" where
  "itoa n = (if n < 0 then CHR ''-'' # nat_str (nat (- n)) else nat_str (nat n))"

definition digits_val :: "string \<Rightarrow> nat" where
  "digits_val s = foldl (\<lambda>n c. 10 * n + digit_val c) 0 s"

text \<open>
  strconv.ParseInt in base 10 with 64 bits, and strconv.Atoi: the value comes with the
  error. A value out of range is clamped to the nearest bound; a syntax error gives 0.
\<close>

datatype num_error = ErrSyntax | ErrRange

definition parse_int64 :: "string \<Rightarrow> int \<times> num_error option" where
  "parse_int64 s =
     (let neg = hasPrefix s ''-'';
          ds = (if hasPrefix s ''-'' \<or> hasPrefix s ''+'' then tl s else s) in
      if ds = [] \<or> \<not> list_all is_digit ds then (0, Some ErrSyntax)
      else if \<not> neg \<and> int (digits_val ds) > max_int64 then (max_int64, Some ErrRange)
      else if neg \<and> - int (digits_val ds) < min_int64 then (min_int64, Some ErrRange)
      else (if neg then - int (digits_val ds) else int (digits_val ds), None))"

lemma digit_char_props:
  assumes "d < 10"
  shows "is_digit (digit_char d)" "digit_val (digit_char d) = d"
  using assms by (simp_all add: is_digit_def digit_val_def digit_char_def)

lemma digits_val_append_one: "digits_val (s @ [c]) = 10 * digits_val s + digit_val c"
  by (simp add: digits_val_def)

lemma nat_str_digits: "list_all is_digit (nat_str n)"
  by (induction n rule: nat_str.induct)
    (subst nat_str.simps, auto simp: digit_char_props)

lemma digits_val_nat_str: "digits_val (nat_str n) = n"
proof (induction n rule: nat_str.induct)
  case (1 n)
  show ?case
  proof (cases "n < 10")
    case True
    then show ?thesis by (simp add: nat_str.simps digits_val_def digit_char_props)
  next
    case False
    with 1 show ?thesis
      by (simp add: nat_str.simps [of n] digits_val_append_one digit_char_props)
  qed
qed

lemma nat_str_ne [simp]: "nat_str n \<noteq> []"
  by (subst nat_str.simps) simp

lemma length_nat_str: "n < 10 ^ Suc k \<Longrightarrow> length (nat_str n) \<le> Suc k"
proof (induction k arbitrary: n)
  case 0
  then show ?case by (simp add: nat_str.simps)
next
  case (Suc k)
  then have "n div 10 < 10 ^ Suc k" by (simp add: less_mult_imp_div_less)
  with Suc.IH show ?case by (subst nat_str.simps) simp
qed

lemma length_itoa: "in_int64 n \<Longrightarrow> length (itoa n) \<le> 20"
proof -
  assume n: "in_int64 n"
  have "nat n < 10 ^ Suc 18" "nat (- n) < 10 ^ Suc 18" using n by (auto simp: in_int64_def)
  from this [THEN length_nat_str] show ?thesis by (simp add: itoa_def)
qed

lemma digits_no_sign:
  assumes "list_all is_digit s"
  shows "\<not> hasPrefix s ''-''" "\<not> hasPrefix s ''+''"
  using assms by (cases s; auto simp: is_digit_def)+

lemma parse_int64_itoa: "in_int64 n \<Longrightarrow> parse_int64 (itoa n) = (n, None)"
  using nat_str_digits [of "nat n"] nat_str_digits [of "nat (- n)"]
  by (auto simp: parse_int64_def itoa_def Let_def digits_no_sign digits_val_nat_str
      in_int64_def)

lemma in_int64_parse_int64: "in_int64 (fst (parse_int64 s))"
  by (auto simp: parse_int64_def in_int64_def Let_def)

end
