(* ===== verification/Codec.thy ===== *)
theory Codec
  imports GoStrings
begin

text \<open>
  The byte encoders the service uses: standard base64 (encoding/base64, StdEncoding) for
  ciphertexts and nonces, lower-case hex (encoding/hex) for tokens. The decoder follows
  StdEncoding.DecodeString: line breaks are skipped, padding is required, and the unused
  bits of a padded last quantum are not checked.

  The locale \<open>text_codec\<close> is the contract the handlers rely on: an encoder into strings
  over a given alphabet, with a decoder that inverts it.
\<close>

section \<open>Base64\<close>

definition b64_alphabet :: string where
  "b64_alphabet = ''ABCDEFGHIJKLMNOPQRSTUVWXYZabcdefghijklmnopqrstuvwxyz0123456789+/''"

definition b64_char :: "nat \<Rightarrow> char" where
  "b64_char n = b64_alphabet ! (n mod 64)"

definition b64_symbol :: "char \<Rightarrow> bool" where
  "b64_symbol c \<longleftrightarrow> c \<in> set b64_alphabet \<or> c = CHR ''=''"

text \<open>The decode map of the alphabet; \<open>None\<close> for a byte outside it.\<close>

definition b64_val :: "char \<Rightarrow> nat option" where
  "b64_val c =
     (let n = of_char c :: nat in
      if 65 \<le> n \<and> n \<le> 90 then Some (n - 65)
      else if 97 \<le> n \<and> n \<le> 122 then Some (n - 71)
      else if 48 \<le> n \<and> n \<le> 57 then Some (n + 4)
      else if n = 43 then Some 62
      else if n = 47 then Some 63
      else None)"

fun b64_encode_nats :: "nat list \<Rightarrow> string" where
  "b64_encode_nats [] = []"
| "b64_encode_nats [a] =
     [b64_char (a div 4), b64_char (a mod 4 * 16), CHR ''='', CHR ''='']"
| "b64_encode_nats [a, b] =
     [b64_char (a div 4), b64_char (a mod 4 * 16 + b div 16), b64_char (b mod 16 * 4), CHR ''='']"
| "b64_encode_nats (a # b # c # rest) =
     b64_char (a div 4) # b64_char (a mod 4 * 16 + b div 16) #
     b64_char (b mod 16 * 4 + c div 64) # b64_char (c mod 64) # b64_encode_nats rest"

definition b64_encode :: "bytes \<Rightarrow> string" where
  "b64_encode bs = b64_encode_nats (map unat bs)"

fun b64_quanta :: "string \<Rightarrow> nat list option" where
  "b64_quanta [] = Some []"
| "b64_quanta (p # q # r # s # rest) =
     (case (b64_val p, b64_val q) of
        (Some a, Some b) \<Rightarrow>
          (if r = CHR ''='' then
             (if s = CHR ''='' \<and> rest = [] then Some [a * 4 + b div 16] else None)
           else (case b64_val r of
             None \<Rightarrow> None
           | Some c \<Rightarrow>
               (if s = CHR ''='' then
                  (if rest = [] then Some [a * 4 + b div 16, b mod 16 * 16 + c div 4] else None)
                else (case b64_val s of
                  None \<Rightarrow> None
                | Some d \<Rightarrow>
                    (case b64_quanta rest of
                       None \<Rightarrow> None
                     | Some ds \<Rightarrow>
                         Some ((a * 4 + b div 16) # (b mod 16 * 16 + c div 4) #
                               (c mod 4 * 64 + d) # ds))))))
      | _ \<Rightarrow> None)"
| "b64_quanta _ = None"

definition is_newline :: "char \<Rightarrow> bool" where
  "is_newline c \<longleftrightarrow> of_char c = (10 :: nat) \<or> of_char c = (13 :: nat)"

definition b64_decode :: "string \<Rightarrow> bytes option" where
  "b64_decode s = map_option (map word_of_nat) (b64_quanta (filter (\<lambda>c. \<not> is_newline c) s))"

section \<open>Hex\<close>

definition hex_digit :: "nat \<Rightarrow> char" where
  "hex_digit n = ''0123456789abcdef'' ! (n mod 16)"

fun hex_encode :: "bytes \<Rightarrow> string" where
  "hex_encode [] = []"
| "hex_encode (b # bs) = hex_digit (unat b div 16) # hex_digit (unat b mod 16) # hex_encode bs"

definition is_hex :: "char \<Rightarrow> bool" where
  "is_hex c \<longleftrightarrow>
     (let n = of_char c :: nat in 48 \<le> n \<and> n \<le> 57 \<or> 97 \<le> n \<and> n \<le> 102)"

definition hex_val :: "char \<Rightarrow> nat option" where
  "hex_val c =
     (let n = of_char c :: nat in
      if 48 \<le> n \<and> n \<le> 57 then Some (n - 48)
      else if 97 \<le> n \<and> n \<le> 102 then Some (n - 87)
      else if 65 \<le> n \<and> n \<le> 70 then Some (n - 55)
      else None)"

fun hex_decode :: "string \<Rightarrow> bytes option" where
  "hex_decode [] = Some []"
| "hex_decode (p # q # s) =
     (case (hex_val p, hex_val q, hex_decode s) of
        (Some a, Some b, Some bs) \<Rightarrow> Some (word_of_nat (a * 16 + b) # bs)
      | _ \<Rightarrow> None)"
| "hex_decode [_] = None"

section \<open>Round trips\<close>

text \<open>A statement about all 64 (or 16) digits is checked digit by digit.\<close>

lemma all_below_64: "(\<forall>n < 64. P n) \<longleftrightarrow> list_all P [0..<64]" for P :: "nat \<Rightarrow> bool"
  by (auto simp: list_all_iff)

lemma all_below_16: "(\<forall>n < 16. P n) \<longleftrightarrow> list_all P [0..<16]" for P :: "nat \<Rightarrow> bool"
  by (auto simp: list_all_iff)

lemma b64_digits:
  "\<forall>n < 64. b64_val (b64_alphabet ! n) = Some n \<and> b64_alphabet ! n \<noteq> CHR ''='' \<and>
    \<not> is_newline (b64_alphabet ! n)"
  unfolding all_below_64
  by (simp add: b64_val_def b64_alphabet_def is_newline_def upt_conv_Cons)

lemma b64_val_char [codec_simps]: "n < 64 \<Longrightarrow> b64_val (b64_char n) = Some n"
  using b64_digits by (simp add: b64_char_def)

lemma b64_char_not [codec_simps]:
  "b64_char n \<noteq> CHR ''=''" "\<not> is_newline (b64_char n)"
  using b64_digits by (simp_all add: b64_char_def)

lemma length_b64_alphabet: "length b64_alphabet = 64"
  by (simp add: b64_alphabet_def)

lemma b64_symbol_char [codec_simps]: "b64_symbol (b64_char n)" "b64_symbol (CHR ''='')"
  by (simp_all add: b64_symbol_def b64_char_def length_b64_alphabet)

lemma hex_digits:
  "\<forall>n < 16. hex_val (''0123456789abcdef'' ! n) = Some n \<and> is_hex (''0123456789abcdef'' ! n)"
  unfolding all_below_16 by (simp add: hex_val_def is_hex_def upt_conv_Cons)

lemma hex_val_digit [codec_simps]: "n < 16 \<Longrightarrow> hex_val (hex_digit n) = Some n"
  using hex_digits by (simp add: hex_digit_def)

lemma is_hex_digit [codec_simps]: "is_hex (hex_digit n)"
  using hex_digits by (simp add: hex_digit_def)

lemma b64_encode_nats_no_newline: "list_all (\<lambda>c. \<not> is_newline c) (b64_encode_nats ns)"
  by (induction ns rule: b64_encode_nats.induct)
    (simp_all add: codec_simps is_newline_def [of "CHR ''=''"])

lemma b64_quanta_encode:
  "list_all (\<lambda>n. n < 256) ns \<Longrightarrow> b64_quanta (b64_encode_nats ns) = Some ns"
proof (induction ns rule: b64_encode_nats.induct)
  case (2 a)
  then have "a div 4 < 64" "a mod 4 * 16 < 64" by auto
  then show ?case by (simp add: codec_simps)
next
  case (3 a b)
  then have "a div 4 < 64" "a mod 4 * 16 + b div 16 < 64" "b mod 16 * 4 < 64" by auto
  moreover have "(a mod 4 * 16 + b div 16) mod 16 * 16 + b mod 16 * 4 div 4 = b"
    using 3 by (simp add: div_less_iff_less_mult)
  ultimately show ?case using 3 by (simp add: codec_simps)
next
  case (4 a b c rest)
  then have lt: "a div 4 < 64" "a mod 4 * 16 + b div 16 < 64" "b mod 16 * 4 + c div 64 < 64"
    "c mod 64 < 64" by auto
  have e: "(a mod 4 * 16 + b div 16) div 16 = a mod 4" "(a mod 4 * 16 + b div 16) mod 16 = b div 16"
    "(b mod 16 * 4 + c div 64) div 4 = b mod 16" "(b mod 16 * 4 + c div 64) mod 4 = c div 64"
    using 4 by auto
  from lt e 4 show ?case by (simp add: codec_simps)
qed simp

lemma map_unat_bound: "list_all (\<lambda>n. n < 256) (map unat (bs :: bytes))"
proof (induction bs)
  case (Cons b bs)
  then show ?case using unsigned_less [of b] by simp
qed simp

lemma map_word_of_nat_unat [simp]: "map (word_of_nat \<circ> unat) (bs :: bytes) = bs"
  by (induction bs) simp_all

lemma b64_decode_encode: "b64_decode (b64_encode bs) = Some bs"
proof -
  have "filter (\<lambda>c. \<not> is_newline c) (b64_encode bs) = b64_encode bs"
    using b64_encode_nats_no_newline [of "map unat bs"]
    by (simp add: b64_encode_def list_all_iff)
  then show ?thesis
    by (simp add: b64_decode_def b64_encode_def b64_quanta_encode map_unat_bound)
qed

lemma b64_symbol_encode_nats: "list_all b64_symbol (b64_encode_nats ns)"
  by (induction ns rule: b64_encode_nats.induct) (simp_all add: codec_simps)

lemma b64_symbol_encode: "list_all b64_symbol (b64_encode bs)"
  by (simp add: b64_encode_def b64_symbol_encode_nats)

lemma length_b64_encode_nats: "length (b64_encode_nats ns) = 4 * ((length ns + 2) div 3)"
proof (induction ns rule: b64_encode_nats.induct)
  case (4 a b c rest)
  have "(5 + length rest) div 3 = Suc ((2 + length rest) div 3)" by simp
  with 4 show ?case by simp
qed simp_all

lemma length_b64_encode: "length (b64_encode bs) = 4 * ((length bs + 2) div 3)"
  by (simp add: b64_encode_def length_b64_encode_nats)

lemma hex_decode_encode: "hex_decode (hex_encode bs) = Some bs"
proof (induction bs)
  case (Cons b bs)
  have "unat b < 256" using unsigned_less [of b] by simp
  then have "unat b div 16 < 16" by auto
  with Cons show ?case by (simp add: codec_simps)
qed simp

lemma hex_alphabet_encode: "list_all is_hex (hex_encode bs)"
  by (induction bs) (simp_all add: codec_simps)

lemma length_hex_encode [simp]: "length (hex_encode bs) = 2 * length bs"
  by (induction bs) auto

section \<open>The codec contract\<close>

locale text_codec =
  fixes enc :: "bytes \<Rightarrow> string"
    and dec :: "string \<Rightarrow> bytes option"
    and symbol :: "char \<Rightarrow> bool"
  assumes dec_enc: "dec (enc bs) = Some bs"
    and enc_symbols: "list_all symbol (enc bs)"
begin

lemma enc_inj: "enc bs = enc cs \<longleftrightarrow> bs = cs"
  by (metis dec_enc option.inject)

lemma enc_avoids: "\<not> symbol c \<Longrightarrow> c \<notin> set (enc bs)"
  using enc_symbols by (auto simp: list_all_iff)

lemma enc_all: "(\<And>c. symbol c \<Longrightarrow> P c) \<Longrightarrow> list_all P (enc bs)"
  using enc_symbols by (auto simp: list_all_iff)

end

interpretation b64: text_codec b64_encode b64_decode b64_symbol
  by unfold_locales (simp_all add: b64_decode_encode b64_symbol_encode)

interpretation hex: text_codec hex_encode hex_decode is_hex
  by unfold_locales (simp_all add: hex_decode_encode hex_alphabet_encode)

end
