(* ===== verification/Json.thy ===== *)
theory Json
  imports Codec
begin

text \<open>
  What the service uses of encoding/json: decoding one value from the request body of
  POST / into the body struct of CreateSecret (internal/handler/handler.go), and encoding
  the two JSON responses. The parser follows the scanner of the package (white space,
  nesting limit, number grammar, escapes), the decoder its rules for struct fields: exact
  name first, then case-insensitive; unknown keys are skipped; null leaves a field alone;
  the last duplicate wins; a value of the wrong type is an error.
\<close>

section \<open>Values and the scanner\<close>

datatype json =
    JNull
  | JBool bool
  | JNum string
  | JStr string
  | JArr "json list"
  | JObj "(string \<times> json) list"

definition json_ws :: "char \<Rightarrow> bool" where
  "json_ws c \<longleftrightarrow> of_char c \<in> {9, 10, 13, 32 :: nat}"

definition skip_ws :: "string \<Rightarrow> string" where
  "skip_ws s = dropWhile json_ws s"

lemma length_skip_ws: "length (skip_ws s) \<le> length s"
  by (simp add: skip_ws_def length_dropWhile_le)

lemma skip_ws_Cons_length: "skip_ws s = c # cs \<Longrightarrow> length cs < length s"
  using length_skip_ws [of s] by simp

definition json_max_depth :: nat where "json_max_depth = 10000"

text \<open>The text of a string literal after its opening quote, escapes still in place.\<close>

definition simple_escape :: "char \<Rightarrow> bool" where
  "simple_escape e \<longleftrightarrow> e \<in> set ''bfnrt/\"'' \<or> of_char e = (92 :: nat)"

text \<open>The length of an escape after its backslash.\<close>

definition escape_length :: "string \<Rightarrow> nat option" where
  "escape_length s =
     (case s of
        [] \<Rightarrow> None
      | e # es \<Rightarrow>
          if simple_escape e then Some 1
          else if e = CHR ''u'' \<and> 4 \<le> length es \<and> list_all (\<lambda>h. hex_val h \<noteq> None) (take 4 es)
          then Some 5
          else None)"

function scan_string :: "string \<Rightarrow> (string \<times> string) option" where
  "scan_string [] = None"
| "scan_string (c # cs) =
     (if c = CHR ''\"'' then Some ([], cs)
      else if of_char c < (32 :: nat) then None
      else if of_char c = (92 :: nat) then
        (case escape_length cs of
           None \<Rightarrow> None
         | Some n \<Rightarrow>
             map_option (\<lambda>(t, r). (c # take n cs @ t, r)) (scan_string (drop n cs)))
      else map_option (\<lambda>(t, r). (c # t, r)) (scan_string cs))"
  by pat_completeness auto
termination by (relation "measure length") auto

definition scan_digits :: "string \<Rightarrow> string \<times> string" where
  "scan_digits s = (takeWhile is_digit s, dropWhile is_digit s)"

definition scan_fraction :: "string \<Rightarrow> (string \<times> string) option" where
  "scan_fraction s =
     (case s of
        c # cs \<Rightarrow>
          if c = CHR ''.'' then
            (case scan_digits cs of (ds, r) \<Rightarrow> if ds = [] then None else Some (c # ds, r))
          else Some ([], s)
      | [] \<Rightarrow> Some ([], s))"

definition scan_exponent :: "string \<Rightarrow> (string \<times> string) option" where
  "scan_exponent s =
     (case s of
        c # cs \<Rightarrow>
          if c = CHR ''e'' \<or> c = CHR ''E'' then
            (let sg = (case cs of x # _ \<Rightarrow> if x = CHR ''+'' \<or> x = CHR ''-'' then [x] else [] | [] \<Rightarrow> []);
                 r = drop (length sg) cs
             in case scan_digits r of (ds, r') \<Rightarrow>
                  if ds = [] then None else Some (c # sg @ ds, r'))
          else Some ([], s)
      | [] \<Rightarrow> Some ([], s))"

definition scan_int_part :: "string \<Rightarrow> string \<times> string" where
  "scan_int_part s = (if hasPrefix s ''0'' then (''0'', tl s) else scan_digits s)"

definition scan_number :: "string \<Rightarrow> (string \<times> string) option" where
  "scan_number s =
     (let sg = (if hasPrefix s ''-'' then ''-'' else []);
          ip = scan_int_part (drop (length sg) s)
      in if fst ip = [] then None
         else (case scan_fraction (snd ip) of
                 None \<Rightarrow> None
               | Some (fr, s2) \<Rightarrow>
                   (case scan_exponent s2 of
                      None \<Rightarrow> None
                    | Some (ex, s3) \<Rightarrow> Some (sg @ fst ip @ fr @ ex, s3))))"

section \<open>String contents\<close>

definition hex4 :: "char \<Rightarrow> char \<Rightarrow> char \<Rightarrow> char \<Rightarrow> nat option" where
  "hex4 a b c d =
     (case (hex_val a, hex_val b, hex_val c, hex_val d) of
        (Some w, Some x, Some y, Some z) \<Rightarrow> Some (w * 4096 + x * 256 + y * 16 + z)
      | _ \<Rightarrow> None)"

definition is_surrogate :: "nat \<Rightarrow> bool" where
  "is_surrogate r \<longleftrightarrow> 55296 \<le> r \<and> r \<le> 57343"

text \<open>utf16.DecodeRune: the replacement rune unless the two form a surrogate pair.\<close>

definition utf16_decode :: "nat \<Rightarrow> nat \<Rightarrow> nat" where
  "utf16_decode hi lo =
     (if 55296 \<le> hi \<and> hi \<le> 56319 \<and> 56320 \<le> lo \<and> lo \<le> 57343
      then (hi - 55296) * 1024 + (lo - 56320) + 65536 else rune_error)"

definition escape_u :: "string \<Rightarrow> (nat \<times> nat) option" where
  "escape_u s =
     (case s of
        a # b # c # d # rest \<Rightarrow>
          (case hex4 a b c d of
             None \<Rightarrow> None
           | Some r \<Rightarrow>
               if is_surrogate r then
                 (case rest of
                    p # q # a2 # b2 # c2 # d2 # _ \<Rightarrow>
                      (if of_char p = (92 :: nat) \<and> q = CHR ''u'' then
                         (case hex4 a2 b2 c2 d2 of
                            Some r2 \<Rightarrow>
                              if utf16_decode r r2 \<noteq> rune_error
                              then Some (utf16_decode r r2, 10) else Some (rune_error, 4)
                          | None \<Rightarrow> Some (rune_error, 4))
                       else Some (rune_error, 4))
                  | _ \<Rightarrow> Some (rune_error, 4))
               else Some (r, 4))
      | _ \<Rightarrow> None)"

definition escape_char :: "char \<Rightarrow> char" where
  "escape_char e =
     (if e = CHR ''b'' then char_of (8 :: nat)
      else if e = CHR ''f'' then char_of (12 :: nat)
      else if e = CHR ''n'' then char_of (10 :: nat)
      else if e = CHR ''r'' then char_of (13 :: nat)
      else if e = CHR ''t'' then char_of (9 :: nat)
      else e)"

function unquote :: "string \<Rightarrow> string" where
  "unquote [] = []"
| "unquote (c # cs) =
     (if of_char c = (92 :: nat) then
        (case cs of
           [] \<Rightarrow> []
         | e # es \<Rightarrow>
             if e = CHR ''u'' then
               (case escape_u es of
                  Some (r, n) \<Rightarrow> encode_rune r @ unquote (drop n es)
                | None \<Rightarrow> unquote es)
             else escape_char e # unquote es)
      else if of_char c < (128 :: nat) then c # unquote cs
      else (case decode_rune (c # cs) of (r, n) \<Rightarrow> encode_rune r @ unquote (drop (n - 1) cs)))"
  by pat_completeness auto
termination by (relation "measure length") auto

declare unquote.simps(2) [simp del]

section \<open>The parser\<close>

text \<open>
  The tests that a rest is shorter than the input are true whenever they are reached
  (lemma \<open>parse_shorter\<close>); they are written so that the recursion is visibly
  well-founded.
\<close>

function (sequential)
  parse_value :: "nat \<Rightarrow> string \<Rightarrow> (json \<times> string) option" and
  parse_elems :: "nat \<Rightarrow> string \<Rightarrow> (json list \<times> string) option" and
  parse_members :: "nat \<Rightarrow> string \<Rightarrow> ((string \<times> json) list \<times> string) option"
where
  "parse_value d s =
     (case skip_ws s of
        [] \<Rightarrow> None
      | c # cs \<Rightarrow>
          if c = CHR ''{'' then
            (if d \<ge> json_max_depth then None
             else if hasPrefix (skip_ws cs) ''}'' then Some (JObj [], tl (skip_ws cs))
             else map_option (\<lambda>(ms, r). (JObj ms, r)) (parse_members (Suc d) cs))
          else if c = CHR ''['' then
            (if d \<ge> json_max_depth then None
             else if hasPrefix (skip_ws cs) '']'' then Some (JArr [], tl (skip_ws cs))
             else map_option (\<lambda>(vs, r). (JArr vs, r)) (parse_elems (Suc d) cs))
          else if c = CHR ''\"'' then
            map_option (\<lambda>(t, r). (JStr (unquote t), r)) (scan_string cs)
          else if hasPrefix (c # cs) ''null'' then Some (JNull, drop 4 (c # cs))
          else if hasPrefix (c # cs) ''true'' then Some (JBool True, drop 4 (c # cs))
          else if hasPrefix (c # cs) ''false'' then Some (JBool False, drop 5 (c # cs))
          else map_option (\<lambda>(n, r). (JNum n, r)) (scan_number (c # cs)))"
| "parse_elems d s =
     (case parse_value d s of
        None \<Rightarrow> None
      | Some (v, r) \<Rightarrow>
          (case skip_ws r of
             c # cs \<Rightarrow>
               if c = CHR '']'' then Some ([v], cs)
               else if c = CHR '','' \<and> length cs < length s then
                 map_option (\<lambda>(vs, r'). (v # vs, r')) (parse_elems d cs)
               else None
           | [] \<Rightarrow> None))"
| "parse_members d s =
     (case skip_ws s of
        q # qs \<Rightarrow>
          if q = CHR ''\"'' then
            (case scan_string qs of
               None \<Rightarrow> None
             | Some (k, r) \<Rightarrow>
                 (case skip_ws r of
                    col # vs \<Rightarrow>
                      if col = CHR '':'' \<and> length vs < length s then
                        (case parse_value d vs of
                           None \<Rightarrow> None
                         | Some (v, r2) \<Rightarrow>
                             (case skip_ws r2 of
                                c # cs \<Rightarrow>
                                  if c = CHR ''}'' then Some ([(unquote k, v)], cs)
                                  else if c = CHR '','' \<and> length cs < length s then
                                    map_option (\<lambda>(ms, r'). ((unquote k, v) # ms, r'))
                                      (parse_members d cs)
                                  else None
                              | [] \<Rightarrow> None))
                      else None
                  | [] \<Rightarrow> None))
          else None
      | [] \<Rightarrow> None)"
  by pat_completeness auto
termination
  by (relation "measure (case_sum (\<lambda>(d, s). 2 * length s)
        (case_sum (\<lambda>(d, s). Suc (2 * length s)) (\<lambda>(d, s). Suc (2 * length s))))")
    (auto dest!: skip_ws_Cons_length)

declare parse_value.simps [simp del] parse_elems.simps [simp del] parse_members.simps [simp del]

section \<open>The parser consumes its input\<close>

lemma scan_string_shorter: "scan_string s = Some (t, r) \<Longrightarrow> length r < length s"
proof (induction s arbitrary: t r rule: scan_string.induct)
  case (2 c cs)
  show ?case
  proof (cases "of_char c = (92 :: nat)")
    case True
    with "2.prems" obtain n t' where "escape_length cs = Some n"
      "scan_string (drop n cs) = Some (t', r)" "c \<noteq> CHR ''\"''"
      by (auto split: if_splits option.splits)
    with "2.IH"(1) [of n t' r] True show ?thesis by auto
  next
    case False
    with "2.prems" "2.IH"(2) show ?thesis
      by (cases "c = CHR ''\"''") (auto split: if_splits intro: less_SucI)
  qed
qed simp

lemma scan_digits_shorter: "scan_digits s = (ds, r) \<Longrightarrow> length r + length ds = length s"
  by (auto simp: scan_digits_def add.commute simp flip: length_append)

lemma scan_fraction_shorter: "scan_fraction s = Some (t, r) \<Longrightarrow> length r \<le> length s"
  by (auto simp: scan_fraction_def split: list.splits if_splits prod.splits
      dest!: scan_digits_shorter)

lemma scan_exponent_shorter: "scan_exponent s = Some (t, r) \<Longrightarrow> length r \<le> length s"
  by (auto simp: scan_exponent_def Let_def split: list.splits if_splits prod.splits
      dest!: scan_digits_shorter)

lemma scan_int_part_shorter:
  "scan_int_part s = (ds, r) \<Longrightarrow> ds \<noteq> [] \<Longrightarrow> length r < length s"
  using scan_digits_shorter [of s ds r]
  by (cases s) (auto simp: scan_int_part_def split: if_splits, cases ds, auto)

lemma scan_number_shorter:
  assumes "scan_number s = Some (t, r)"
  shows "length r < length s"
proof -
  define sg where "sg = (if hasPrefix s ''-'' then ''-'' else [])"
  obtain ds r1 where ip: "scan_int_part (drop (length sg) s) = (ds, r1)" by fastforce
  with assms obtain fr r2 ex where "ds \<noteq> []"
    and fr: "scan_fraction r1 = Some (fr, r2)" and ex: "scan_exponent r2 = Some (ex, r)"
    by (auto simp: scan_number_def Let_def sg_def split: if_splits option.splits)
  then have "length r1 < length (drop (length sg) s)"
    using scan_int_part_shorter ip by blast
  with scan_fraction_shorter [OF fr] scan_exponent_shorter [OF ex] show ?thesis by simp
qed

lemma parse_shorter:
  "parse_value d s = Some (v, r) \<Longrightarrow> length r < length s"
  "parse_elems d s = Some (vs, r) \<Longrightarrow> length r < length s"
  "parse_members d s = Some (ms, r) \<Longrightarrow> length r < length s"
proof (induction d s and d s and d s arbitrary: v r and vs r and ms r
    rule: parse_value_parse_elems_parse_members.induct)
  case (1 d s)
  obtain c cs where s: "skip_ws s = c # cs"
    using "1.prems" by (cases "skip_ws s") (auto simp: parse_value.simps [of d s])
  have lt: "length cs < length s" using s by (rule skip_ws_Cons_length)
  have tl: "length (tl (skip_ws cs)) \<le> length cs"
    using length_skip_ws [of cs] by simp
  show ?case
  proof (cases "c = CHR ''{'' \<or> c = CHR ''[''")
    case True
    then have deep: "\<not> d \<ge> json_max_depth"
      using "1.prems" by (auto simp: parse_value.simps [of d s] s)
    show ?thesis
    proof (cases "c = CHR ''{''")
      case obj: True
      then have "parse_members (Suc d) cs = Some (ms, r') \<Longrightarrow> length r' < length cs"
        if "\<not> hasPrefix (skip_ws cs) ''}''" for ms r'
        using "1.IH"(1) [OF s _ deep that] by blast
      with "1.prems" obj deep lt tl show ?thesis
        by (fastforce simp: parse_value.simps [of d s] s split: if_splits)
    next
      case arr: False
      then have "parse_elems (Suc d) cs = Some (vs, r') \<Longrightarrow> length r' < length cs"
        if "\<not> hasPrefix (skip_ws cs) '']''" for vs r'
        using "1.IH"(2) [OF s _ _ deep that] True by blast
      with "1.prems" arr True deep lt tl show ?thesis
        by (fastforce simp: parse_value.simps [of d s] s split: if_splits)
    qed
  next
    case False
    with "1.prems" lt length_skip_ws [of s] s show ?thesis
      by (auto simp: parse_value.simps [of d s] split: if_splits
          dest!: scan_string_shorter scan_number_shorter)
  qed
next
  case (2 d s)
  obtain v r1 where v: "parse_value d s = Some (v, r1)"
    using "2.prems" by (cases "parse_value d s") (auto simp: parse_elems.simps [of d s])
  obtain c cs where c: "skip_ws r1 = c # cs"
    using "2.prems" v by (cases "skip_ws r1") (auto simp: parse_elems.simps [of d s])
  have "length r1 < length s" "length cs < length r1"
    using "2.IH"(1) [OF v] skip_ws_Cons_length [OF c] by auto
  with "2.prems" "2.IH"(2) [OF v refl c] v c show ?case
    by (fastforce simp: parse_elems.simps [of d s] split: if_splits)
next
  case (3 d s)
  note eq = parse_members.simps [of d s]
  obtain q qs where q: "skip_ws s = q # qs"
    using "3.prems" by (cases "skip_ws s") (auto simp: eq)
  have quote: "q = CHR ''\"''"
    using "3.prems" q by (simp add: eq split: if_splits)
  obtain k r1 where k: "scan_string qs = Some (k, r1)"
    using "3.prems" q quote by (cases "scan_string qs") (auto simp: eq)
  obtain col vs where col: "skip_ws r1 = col # vs"
    using "3.prems" q quote k by (cases "skip_ws r1") (auto simp: eq)
  have colon: "col = CHR '':''" "length vs < length s"
    using "3.prems" q quote k col by (simp_all add: eq split: if_splits)
  obtain v r2 where v: "parse_value d vs = Some (v, r2)"
    using "3.prems" q quote k col colon by (cases "parse_value d vs") (auto simp: eq)
  obtain c cs where c: "skip_ws r2 = c # cs"
    using "3.prems" q quote k col colon v by (cases "skip_ws r2") (auto simp: eq)
  have lt: "length r2 < length vs"
    using "3.IH"(1) [OF q quote k refl col] colon v by simp
  have lt': "length cs < length r2"
    using c by (rule skip_ws_Cons_length)
  show ?case
  proof (cases "c = CHR ''}''")
    case True
    with "3.prems" q quote k col colon v c lt lt' show ?thesis by (simp add: eq)
  next
    case False
    with "3.prems" q quote k col colon v c obtain ms' where
      "c = CHR '',''" "length cs < length s" "parse_members d cs = Some (ms', r)"
      by (auto simp: eq split: if_splits)
    with "3.IH"(2) [OF q quote k refl col _ v refl c False] colon lt lt' show ?thesis
      by fastforce
  qed
qed

end
