(* ===== verification/Payload.thy ===== *)
theory Payload
  imports Json
begin

text \<open>
  The two JSON messages of the secret API: the body struct that CreateSecret decodes
  (internal/handler/handler.go) behind http.MaxBytesReader, and the responses, a map with
  the token and the \<open>SecretPayload\<close> of internal/model/secret.go. \<open>client_body\<close> is the
  text the browser sends (web/static/js/crypto.js); \<open>client_reads\<close> is what it reads back.
\<close>

section \<open>Decoding the body of a create request\<close>

record create_body =
  cb_ciphertext :: string
  cb_nonce :: string
  cb_expires_in :: int

definition empty_body :: create_body where
  "empty_body = \<lparr>cb_ciphertext = [], cb_nonce = [], cb_expires_in = 0\<rparr>"

definition body_fields :: "string list" where
  "body_fields = [''ciphertext'', ''nonce'', ''expires_in'']"

text \<open>The struct field a key selects: an exact match, else a case-insensitive one.\<close>

definition body_field :: "unicode_tables \<Rightarrow> string \<Rightarrow> string option" where
  "body_field uc k =
     (if k \<in> set body_fields then Some k else find (equalFold uc k) body_fields)"

definition string_value :: "json \<Rightarrow> string \<Rightarrow> string option" where
  "string_value v old = (case v of JNull \<Rightarrow> Some old | JStr t \<Rightarrow> Some t | _ \<Rightarrow> None)"

definition int_value :: "json \<Rightarrow> int \<Rightarrow> int option" where
  "int_value v old =
     (case v of
        JNull \<Rightarrow> Some old
      | JNum lit \<Rightarrow> (case parse_int64 lit of (n, None) \<Rightarrow> Some n | (_, Some _) \<Rightarrow> None)
      | _ \<Rightarrow> None)"

definition set_body_field ::
    "unicode_tables \<Rightarrow> string \<times> json \<Rightarrow> create_body \<Rightarrow> create_body option" where
  "set_body_field uc kv b =
     (case body_field uc (fst kv) of
        None \<Rightarrow> Some b
      | Some f \<Rightarrow>
          if f = ''ciphertext'' then
            map_option (\<lambda>t. b\<lparr>cb_ciphertext := t\<rparr>) (string_value (snd kv) (cb_ciphertext b))
          else if f = ''nonce'' then
            map_option (\<lambda>t. b\<lparr>cb_nonce := t\<rparr>) (string_value (snd kv) (cb_nonce b))
          else
            map_option (\<lambda>n. b\<lparr>cb_expires_in := n\<rparr>) (int_value (snd kv) (cb_expires_in b)))"

fun set_body_fields ::
    "unicode_tables \<Rightarrow> (string \<times> json) list \<Rightarrow> create_body \<Rightarrow> create_body option" where
  "set_body_fields uc [] b = Some b"
| "set_body_fields uc (kv # kvs) b =
     (case set_body_field uc kv b of None \<Rightarrow> None | Some b' \<Rightarrow> set_body_fields uc kvs b')"

text \<open>
  json.NewDecoder(http.MaxBytesReader(w, r.Body, limit)).Decode: one value is read from
  the first \<open>limit\<close> bytes; what follows it is left unread. A negative limit counts as 0.
  A top-level null leaves the struct alone, but its end is only seen with the next byte or
  the end of the body.
\<close>

definition decode_body :: "unicode_tables \<Rightarrow> int \<Rightarrow> string \<Rightarrow> create_body option" where
  "decode_body uc limit body =
     (let buf = take (nat limit) body; cut = nat limit < length body in
      case parse_value 0 buf of
        None \<Rightarrow> None
      | Some (JObj ms, _) \<Rightarrow> set_body_fields uc ms empty_body
      | Some (JNull, rest) \<Rightarrow> if rest = [] \<and> cut then None else Some empty_body
      | Some _ \<Rightarrow> None)"

section \<open>Encoding\<close>

definition json_safe :: "char \<Rightarrow> bool" where
  "json_safe c \<longleftrightarrow>
     (let n = of_char c :: nat in 32 \<le> n \<and> n < 128 \<and> n \<notin> {34, 38, 60, 62, 92})"

definition hex4_digits :: "nat \<Rightarrow> string" where
  "hex4_digits n =
     [hex_digit (n div 4096), hex_digit (n div 256), hex_digit (n div 16), hex_digit n]"

definition u_escape :: "nat \<Rightarrow> string" where
  "u_escape n = char_of (92 :: nat) # CHR ''u'' # hex4_digits n"

definition json_escape_rune :: "nat \<times> string \<Rightarrow> string" where
  "json_escape_rune rc =
     (let n = fst rc in
      if n < 128 then
        (if json_safe (char_of n) then [char_of n]
         else if n = 34 \<or> n = 92 then [char_of (92 :: nat), char_of n]
         else if n = 8 then [char_of (92 :: nat), CHR ''b'']
         else if n = 12 then [char_of (92 :: nat), CHR ''f'']
         else if n = 10 then [char_of (92 :: nat), CHR ''n'']
         else if n = 13 then [char_of (92 :: nat), CHR ''r'']
         else if n = 9 then [char_of (92 :: nat), CHR ''t'']
         else u_escape n)
      else if n = rune_error \<and> length (snd rc) = 1 then u_escape 65533
      else if n = 8232 \<or> n = 8233 then u_escape n
      else snd rc)"

definition json_quote :: "string \<Rightarrow> string" where
  "json_quote s = CHR ''\"'' # concat (map json_escape_rune (runes s)) @ ''\"''"

text \<open>json.NewEncoder(w).Encode(map[string]string{"token": token})\<close>

definition token_response :: "string \<Rightarrow> string" where
  "token_response token =
     ''{'' @ json_quote ''token'' @ '':'' @ json_quote token @ ''}'' @ [char_of (10 :: nat)]"

record secret_payload =
  sp_ciphertext :: string
  sp_nonce :: string

definition payload_response :: "secret_payload \<Rightarrow> string" where
  "payload_response p =
     ''{'' @ json_quote ''ciphertext'' @ '':'' @ json_quote (sp_ciphertext p) @ '','' @
     json_quote ''nonce'' @ '':'' @ json_quote (sp_nonce p) @ ''}'' @ [char_of (10 :: nat)]"

section \<open>The browser's side\<close>

definition client_body :: "bytes \<Rightarrow> bytes \<Rightarrow> int \<Rightarrow> string" where
  "client_body ct nonce n =
     ''{'' @ json_quote ''ciphertext'' @ '':'' @ json_quote (b64_encode ct) @ '','' @
     json_quote ''nonce'' @ '':'' @ json_quote (b64_encode nonce) @ '','' @
     json_quote ''expires_in'' @ '':'' @ itoa n @ ''}''"

definition json_member :: "string \<Rightarrow> json \<Rightarrow> string option" where
  "json_member k v =
     (case v of
        JObj ms \<Rightarrow> (case map_of ms k of Some (JStr t) \<Rightarrow> Some t | _ \<Rightarrow> None)
      | _ \<Rightarrow> None)"

definition client_reads :: "string \<Rightarrow> (bytes \<times> bytes) option" where
  "client_reads body =
     (case parse_value 0 body of
        None \<Rightarrow> None
      | Some (v, _) \<Rightarrow>
          (case (json_member ''ciphertext'' v, json_member ''nonce'' v) of
             (Some c, Some n) \<Rightarrow>
               (case (b64_decode c, b64_decode n) of
                  (Some ct, Some nonce) \<Rightarrow> Some (ct, nonce)
                | _ \<Rightarrow> None)
           | _ \<Rightarrow> None))"

section \<open>Plain strings survive quoting\<close>

lemma json_safe_ascii: "json_safe c \<Longrightarrow> of_char c < (128 :: nat)"
  by (simp add: json_safe_def Let_def)

lemma json_safe_all_ascii: "list_all json_safe s \<Longrightarrow> ascii s"
  by (induction s) (auto simp: json_safe_ascii)

lemma escape_safe: "json_safe c \<Longrightarrow> json_escape_rune (of_char c, [c]) = [c]"
  by (simp add: json_escape_rune_def json_safe_ascii)

lemma json_quote_safe: "list_all json_safe s \<Longrightarrow> json_quote s = CHR ''\"'' # s @ ''\"''"
proof -
  assume safe: "list_all json_safe s"
  have "concat (map json_escape_rune (map (\<lambda>c. (of_char c, [c])) s)) = s"
    using safe by (induction s) (simp_all add: escape_safe)
  with safe show ?thesis
    by (simp add: json_quote_def runes_ascii json_safe_all_ascii)
qed

lemma json_safe_not:
  "json_safe c \<Longrightarrow> c \<noteq> CHR ''\"''" "json_safe c \<Longrightarrow> of_char c \<noteq> (92 :: nat)"
  "json_safe c \<Longrightarrow> \<not> of_char c < (32 :: nat)"
  by (auto simp: json_safe_def Let_def)

lemma scan_string_safe: "list_all json_safe s \<Longrightarrow> scan_string (s @ CHR ''\"'' # r) = Some (s, r)"
  by (induction s) (simp_all add: json_safe_not)

lemma unquote_safe: "list_all json_safe s \<Longrightarrow> unquote s = s"
  by (induction s) (simp_all add: unquote.simps(2) json_safe_not json_safe_ascii)

lemma skip_ws_quote: "skip_ws (CHR ''\"'' # s) = CHR ''\"'' # s"
  by (simp add: skip_ws_def json_ws_def)

lemma parse_value_quote:
  "list_all json_safe s \<Longrightarrow> parse_value d (json_quote s @ r) = Some (JStr s, r)"
  by (simp add: parse_value.simps json_quote_safe skip_ws_quote scan_string_safe unquote_safe)

lemma parse_members_last:
  assumes "list_all json_safe k" "parse_value d (v @ CHR ''}'' # r) = Some (x, CHR ''}'' # r)"
  shows "parse_members d (json_quote k @ CHR '':'' # v @ CHR ''}'' # r) = Some ([(k, x)], r)"
  using assms
  by (simp add: parse_members.simps json_quote_safe skip_ws_quote scan_string_safe unquote_safe
      skip_ws_def json_ws_def)

lemma parse_members_step:
  assumes "list_all json_safe k" "parse_value d (v @ CHR '','' # r) = Some (x, CHR '','' # r)"
  shows "parse_members d (json_quote k @ CHR '':'' # v @ CHR '','' # r) =
    map_option (\<lambda>(ms, r'). ((k, x) # ms, r')) (parse_members d r)"
  unfolding json_quote_safe [OF assms(1)] append_Cons append_assoc append_Nil
  using assms
  by (subst parse_members.simps)
    (simp add: scan_string_safe unquote_safe skip_ws_def json_ws_def)

lemma parse_object:
  assumes "list_all json_safe k" "parse_members (Suc 0) (json_quote k @ r) = Some (ms, r')"
  shows "parse_value 0 (CHR ''{'' # json_quote k @ r) = Some (JObj ms, r')"
  using assms
  by (simp add: parse_value.simps json_quote_safe skip_ws_def json_ws_def json_max_depth_def)

lemma safe_b64: "list_all json_safe (b64_encode bs)"
proof (rule b64.enc_all)
  fix c assume "b64_symbol c"
  moreover have "list_all json_safe b64_alphabet"
    by (simp add: b64_alphabet_def json_safe_def)
  ultimately show "json_safe c"
    by (auto simp: b64_symbol_def list_all_iff) (simp add: json_safe_def)
qed

lemma safe_hex: "is_hex c \<Longrightarrow> json_safe c"
  by (auto simp: is_hex_def json_safe_def Let_def)

lemma safe_names [simp]:
  "list_all json_safe ''ciphertext''" "list_all json_safe ''nonce''"
  "list_all json_safe ''expires_in''" "list_all json_safe ''token''"
  by (simp_all add: json_safe_def)

section \<open>Numbers\<close>

lemma nat_str_leading_zero: "nat_str n = CHR ''0'' # t \<Longrightarrow> n = 0 \<and> t = []"
proof (induction n arbitrary: t rule: nat_str.induct)
  case (1 n)
  show ?case
  proof (cases "n < 10")
    case True
    with 1 show ?thesis
      using digit_char_props(2) [of n] by (auto simp: nat_str.simps [of n] digit_val_def)
  next
    case False
    then obtain t' where "nat_str (n div 10) = CHR ''0'' # t'"
      using 1 by (cases "nat_str (n div 10)") (auto simp: nat_str.simps [of n])
    with 1 False show ?thesis by fastforce
  qed
qed

lemma scan_digits_nat_str:
  "\<not> is_digit c \<Longrightarrow> scan_digits (nat_str n @ c # r) = (nat_str n, c # r)"
  using nat_str_digits [of n]
  by (simp add: scan_digits_def takeWhile_append_stop dropWhile_append_stop)

definition number_end :: "char \<Rightarrow> bool" where
  "number_end c \<longleftrightarrow> c = CHR '','' \<or> c = CHR ''}'' \<or> c = CHR '']''"

lemma number_end_props:
  assumes "number_end c"
  shows "\<not> is_digit c" "scan_fraction (c # r) = Some ([], c # r)"
    "scan_exponent (c # r) = Some ([], c # r)"
  using assms by (auto simp: number_end_def is_digit_def scan_fraction_def scan_exponent_def)

lemma scan_natural:
  assumes "number_end c"
  shows "scan_int_part (nat_str n @ c # r) = (nat_str n, c # r)"
proof (cases "nat_str n")
  case (Cons x xs)
  show ?thesis
  proof (cases "x = CHR ''0''")
    case True
    with Cons nat_str_leading_zero [of n xs] show ?thesis by (simp add: scan_int_part_def)
  next
    case False
    with Cons assms scan_digits_nat_str [of c n r] number_end_props(1) show ?thesis
      by (simp add: scan_int_part_def)
  qed
qed simp

lemma nat_str_not_minus: "\<not> hasPrefix (nat_str n @ r) ''-''"
  using digits_no_sign(1) [OF nat_str_digits [of n]] by (cases "nat_str n") auto

lemma scan_number_itoa:
  assumes "number_end c"
  shows "scan_number (itoa n @ c # r) = Some (itoa n, c # r)"
  using assms scan_natural [OF assms] number_end_props [OF assms]
  by (simp add: scan_number_def itoa_def Let_def nat_str_not_minus)

lemma itoa_head: "\<exists>x xs. itoa n = x # xs \<and> (is_digit x \<or> x = CHR ''-'')"
proof -
  have m: "\<exists>x xs. nat_str m = x # xs \<and> is_digit x" for m
    using nat_str_digits [of m] by (cases "nat_str m") auto
  show ?thesis using m [of "nat n"] by (auto simp: itoa_def)
qed

lemma number_head:
  assumes "is_digit x \<or> x = CHR ''-''"
  shows "\<not> json_ws x \<and> x \<noteq> CHR ''{'' \<and> x \<noteq> CHR ''['' \<and> x \<noteq> CHR ''\"'' \<and>
    x \<noteq> CHR ''n'' \<and> x \<noteq> CHR ''t'' \<and> x \<noteq> CHR ''f''"
  using assms by (auto simp: is_digit_def json_ws_def)

lemma parse_value_itoa:
  assumes "number_end c"
  shows "parse_value d (itoa n @ c # r) = Some (JNum (itoa n), c # r)"
proof -
  obtain x xs where x: "itoa n = x # xs" "is_digit x \<or> x = CHR ''-''"
    using itoa_head by blast
  with number_head [of x] have h: "\<not> json_ws x" "x \<noteq> CHR ''{''" "x \<noteq> CHR ''[''" "x \<noteq> CHR ''\"''"
    "x \<noteq> CHR ''n''" "x \<noteq> CHR ''t''" "x \<noteq> CHR ''f''"
    by blast+
  have "scan_number (x # xs @ c # r) = Some (x # xs, c # r)"
    using scan_number_itoa [OF assms, of n r] x(1) by simp
  with h show ?thesis
    by (simp add: parse_value.simps x(1) skip_ws_def)
qed

section \<open>What the client sends is what the server reads\<close>

lemma parse_client_body:
  "parse_value 0 (client_body ct nonce n) =
    Some (JObj [(''ciphertext'', JStr (b64_encode ct)), (''nonce'', JStr (b64_encode nonce)),
      (''expires_in'', JNum (itoa n))], [])"
proof -
  note q = parse_value_quote [OF safe_b64]
  have 1: "parse_members (Suc 0) (json_quote ''expires_in'' @ CHR '':'' # itoa n @ CHR ''}'' # []) =
      Some ([(''expires_in'', JNum (itoa n))], [])"
    by (rule parse_members_last [OF safe_names(3)]) (simp add: parse_value_itoa number_end_def)
  have 2: "parse_members (Suc 0) (json_quote ''nonce'' @ CHR '':'' # json_quote (b64_encode nonce) @
      CHR '','' # json_quote ''expires_in'' @ CHR '':'' # itoa n @ ''}'') =
      Some ([(''nonce'', JStr (b64_encode nonce)), (''expires_in'', JNum (itoa n))], [])"
    by (subst parse_members_step [OF safe_names(2) q]) (simp add: 1)
  have 3: "parse_members (Suc 0) (json_quote ''ciphertext'' @ CHR '':'' # json_quote (b64_encode ct) @
      CHR '','' # json_quote ''nonce'' @ CHR '':'' # json_quote (b64_encode nonce) @
      CHR '','' # json_quote ''expires_in'' @ CHR '':'' # itoa n @ ''}'') =
      Some ([(''ciphertext'', JStr (b64_encode ct)), (''nonce'', JStr (b64_encode nonce)),
        (''expires_in'', JNum (itoa n))], [])"
    by (subst parse_members_step [OF safe_names(1) q]) (simp add: 2)
  show ?thesis
    using parse_object [OF safe_names(1) 3] by (simp add: client_body_def)
qed

lemma decode_client_body:
  assumes "int (length (client_body ct nonce n)) \<le> limit" "in_int64 n"
  shows "decode_body uc limit (client_body ct nonce n) =
    Some \<lparr>cb_ciphertext = b64_encode ct, cb_nonce = b64_encode nonce, cb_expires_in = n\<rparr>"
proof -
  have "take (nat limit) (client_body ct nonce n) = client_body ct nonce n"
    using assms(1) by simp
  then show ?thesis
    using assms(2)
    by (simp add: decode_body_def Let_def parse_client_body set_body_field_def body_field_def
        body_fields_def string_value_def int_value_def parse_int64_itoa empty_body_def)
qed

lemma client_reads_payload:
  "client_reads (payload_response
     \<lparr>sp_ciphertext = b64_encode ct, sp_nonce = b64_encode nonce\<rparr>) = Some (ct, nonce)"
proof -
  note q = parse_value_quote [OF safe_b64]
  have 1: "parse_members (Suc 0) (json_quote ''nonce'' @ CHR '':'' # json_quote (b64_encode nonce) @
      CHR ''}'' # [char_of (10 :: nat)]) =
      Some ([(''nonce'', JStr (b64_encode nonce))], [char_of (10 :: nat)])"
    by (rule parse_members_last [OF safe_names(2)]) (simp add: q)
  have 2: "parse_members (Suc 0) (json_quote ''ciphertext'' @ CHR '':'' # json_quote (b64_encode ct) @
      CHR '','' # json_quote ''nonce'' @ CHR '':'' # json_quote (b64_encode nonce) @
      CHR ''}'' # [char_of (10 :: nat)]) =
      Some ([(''ciphertext'', JStr (b64_encode ct)), (''nonce'', JStr (b64_encode nonce))],
        [char_of (10 :: nat)])"
    by (subst parse_members_step [OF safe_names(1) q]) (simp add: 1)
  show ?thesis
    using parse_object [OF safe_names(1) 2]
    by (simp add: payload_response_def client_reads_def json_member_def b64_decode_encode)
qed

end
