(* ===== verification/Database.thy ===== *)
theory Database
  imports Prelude
begin

text \<open>
  The PostgreSQL side of the service: the three tables of internal/db/migrations, the
  domain types of internal/model/secret.go, and the way a single statement can end. The
  server runs every statement on its own (no explicit transactions), so a statement is
  the unit of atomicity.

  PostgreSQL, pgx and the network are outside the repository. What they decide is an
  argument: the server clock at the statement (\<open>NOW()\<close>), the UUID that
  \<open>gen_random_uuid()\<close> draws, the outcome of the round trip, and how the driver stores a
  time (\<open>tz\<close> in the definitions below). An outcome is one of three: the statement ran and
  its result came back; it was rejected and changed nothing; or it ran and the
  acknowledgement was lost, so that the client sees an error although the change is made.
\<close>

section \<open>Domain types\<close>

record secret =
  s_id :: string
  s_token :: string
  s_ciphertext :: bytes
  s_nonce :: bytes
  s_expires_at :: "gotime option"
  s_created_at :: gotime

record create_input =
  ci_ciphertext :: bytes
  ci_nonce :: bytes
  ci_expires_in :: int

section \<open>Tables\<close>

record secret_event =
  ev_id :: nat
  ev_type :: string
  ev_count :: int
  ev_ts :: gotime

record app_log =
  lg_id :: nat
  lg_ts :: gotime
  lg_level :: string
  lg_msg :: string
  lg_attrs :: "string option"

record database =
  secrets :: "secret list"
  secret_events :: "secret_event list"
  app_logs :: "app_log list"

definition empty_db :: database where
  "empty_db = \<lparr>secrets = [], secret_events = [], app_logs = []\<rparr>"

text \<open>The CHECK constraint of secret_events.\<close>

definition event_types :: "string list" where
  "event_types = [''created'', ''retrieved'', ''expired'']"

text \<open>
  What the table constraints guarantee: primary keys, the UNIQUE token, the CHECK. The
  serial keys of the two log tables are drawn above every key in use.
\<close>

definition db_ok :: "database \<Rightarrow> bool" where
  "db_ok db \<longleftrightarrow>
     distinct (map s_id (secrets db)) \<and> distinct (map s_token (secrets db)) \<and>
     list_all (\<lambda>e. ev_type e \<in> set event_types) (secret_events db)"

definition next_serial :: "nat list \<Rightarrow> nat" where
  "next_serial ids = Suc (foldr max ids 0)"

section \<open>Statements and their outcomes\<close>

datatype db_error = UniqueViolation | CheckViolation | ConnError string

datatype outcome = Applied | Rejected db_error | AckLost db_error

record call =
  c_now :: gotime
  c_out :: outcome

definition exec_stmt ::
    "outcome \<Rightarrow> (database \<Rightarrow> db_error + database \<times> 'a) \<Rightarrow> database \<Rightarrow> database \<times> (db_error + 'a)" where
  "exec_stmt out stmt db =
     (case out of
        Rejected e \<Rightarrow> (db, Inl e)
      | Applied \<Rightarrow> (case stmt db of Inl e \<Rightarrow> (db, Inl e) | Inr (db', a) \<Rightarrow> (db', Inr a))
      | AckLost e \<Rightarrow> (case stmt db of Inl _ \<Rightarrow> (db, Inl e) | Inr (db', _) \<Rightarrow> (db', Inl e)))"

lemma exec_stmt_cases:
  obtains (unchanged) "fst (exec_stmt out stmt db) = db"
  | (changed) db' a where "stmt db = Inr (db', a)" "fst (exec_stmt out stmt db) = db'"
  by (cases out; cases "stmt db") (auto simp: exec_stmt_def split: sum.splits prod.splits)

lemma exec_stmt_Inr:
  "exec_stmt out stmt db = (db', Inr a) \<longleftrightarrow> out = Applied \<and> stmt db = Inr (db', a)"
  by (auto simp: exec_stmt_def split: outcome.splits sum.splits prod.splits)

lemma exec_stmt_Applied:
  "exec_stmt Applied stmt db =
    (case stmt db of Inl e \<Rightarrow> (db, Inl e) | Inr (db', a) \<Rightarrow> (db', Inr a))"
  by (simp add: exec_stmt_def)

text \<open>A statement keeps what its two possible effects keep.\<close>

lemma exec_stmt_preserves:
  assumes "P db" "\<And>db' a. stmt db = Inr (db', a) \<Longrightarrow> P db'"
  shows "P (fst (exec_stmt out stmt db))"
  using assms by (cases rule: exec_stmt_cases [of out stmt db]) auto

end
