(* ===== verification/Logger.thy ===== *)
theory Logger
  imports Payload Database "HOL-Library.AList" "HOL-Library.List_Lexorder" "HOL-Library.Char_ord"
begin

text \<open>
  internal/logger: the slog handlers. This theory holds the sequential part: levels and
  attribute values of log/slog, resolveAttr, the DBHandler with its derived copies
  (WithAttrs, WithGroup), the record it builds, and the MultiHandler that fans out. The
  queue that the handlers share with the writer goroutine is in theory LogQueue.

  An attribute map of Go is an association list with distinct keys, updated with
  \<open>AList.update\<close>, so that emptiness can be tested as the code does with \<open>len\<close>.
\<close>

section \<open>Levels\<close>

datatype level = Level (level_val: int)

instantiation level :: linorder
begin

definition less_eq_level :: "level \<Rightarrow> level \<Rightarrow> bool" where
  "less_eq_level a b \<longleftrightarrow> level_val a \<le> level_val b"

definition less_level :: "level \<Rightarrow> level \<Rightarrow> bool" where
  "less_level a b \<longleftrightarrow> level_val a < level_val b"

instance
  by standard (auto simp: less_eq_level_def less_level_def level.expand)

end

definition levelDebug :: level where "levelDebug = Level (- 4)"
definition levelInfo :: level where "levelInfo = Level 0"
definition levelWarn :: level where "levelWarn = Level 4"
definition levelError :: level where "levelError = Level 8"

lemmas level_simps =
  less_eq_level_def less_level_def levelDebug_def levelInfo_def levelWarn_def levelError_def

section \<open>Attributes\<close>

datatype any = AnyStr string | AnyInt int | AnyBool bool | AnyErr string

text \<open>A value is plain, a group of attributes, or a LogValuer with the value it returns.\<close>

datatype attr_value =
    VAny any
  | VGroup "(string \<times> attr_value) list"
  | VLogValuer attr_value

type_synonym attr = "string \<times> attr_value"
type_synonym attr_map = "(string \<times> any) list"

text \<open>Value.Resolve: at most 100 rounds of LogValue.\<close>

fun resolve_rounds :: "nat \<Rightarrow> attr_value \<Rightarrow> attr_value" where
  "resolve_rounds 0 v = VAny (AnyErr ''LogValue called too many times'')"
| "resolve_rounds (Suc n) (VLogValuer v) = resolve_rounds n v"
| "resolve_rounds (Suc n) v = v"

definition resolve :: "attr_value \<Rightarrow> attr_value" where
  "resolve v = resolve_rounds 100 v"

lemma size_resolve_rounds: "size (resolve_rounds n v) \<le> size v"
  by (induction n v rule: resolve_rounds.induct) auto

lemma resolve_size_group:
  assumes "resolve v = VGroup as"
  shows "size_list (size_prod (\<lambda>_. 0) size) as < size v"
proof -
  have "size (VGroup as) \<le> size v"
    using size_resolve_rounds [of 100 v] assms unfolding resolve_def by metis
  then show ?thesis by simp
qed

text \<open>The key of an attribute under a group prefix.\<close>

definition qualify :: "string \<Rightarrow> string \<Rightarrow> string" where
  "qualify grp key = (if grp \<noteq> [] then grp @ ''.'' @ key else key)"

function (sequential)
  resolveAttr :: "attr_map \<Rightarrow> string \<Rightarrow> attr \<Rightarrow> attr_map" and
  resolveAttrs :: "attr_map \<Rightarrow> string \<Rightarrow> attr list \<Rightarrow> attr_map"
where
  "resolveAttr m grp (key, v) =
     (case resolve v of
        VGroup as \<Rightarrow> resolveAttrs m (qualify grp key) as
      | VAny x \<Rightarrow> AList.update (qualify grp key) x m
      | VLogValuer _ \<Rightarrow> m)"
| "resolveAttrs m grp [] = m"
| "resolveAttrs m grp (a # as) = resolveAttrs (resolveAttr m grp a) grp as"
  by pat_completeness auto
termination
  by (relation "measure (case_sum (\<lambda>(m, g, a). 2 * size (snd a))
        (\<lambda>(m, g, as). Suc (2 * size_list (size_prod (\<lambda>_. 0) size) as)))")
    (auto dest: resolve_size_group)

declare resolveAttr.simps [simp del]

text \<open>The reference reading: the list of qualified key/value pairs, in order.\<close>

function (sequential)
  flatten :: "string \<Rightarrow> attr \<Rightarrow> (string \<times> any) list" and
  flattens :: "string \<Rightarrow> attr list \<Rightarrow> (string \<times> any) list"
where
  "flatten grp (key, v) =
     (case resolve v of
        VGroup as \<Rightarrow> flattens (qualify grp key) as
      | VAny x \<Rightarrow> [(qualify grp key, x)]
      | VLogValuer _ \<Rightarrow> [])"
| "flattens grp [] = []"
| "flattens grp (a # as) = flatten grp a @ flattens grp as"
  by pat_completeness auto
termination
  by (relation "measure (case_sum (\<lambda>(g, a). 2 * size (snd a))
        (\<lambda>(g, as). Suc (2 * size_list (size_prod (\<lambda>_. 0) size) as)))")
    (auto dest: resolve_size_group)

declare flatten.simps [simp del]

definition put_all :: "attr_map \<Rightarrow> (string \<times> any) list \<Rightarrow> attr_map" where
  "put_all m kvs = foldl (\<lambda>m (k, v). AList.update k v m) m kvs"

lemma put_all_simps [simp]:
  "put_all m [] = m"
  "put_all m ((k, v) # kvs) = put_all (AList.update k v m) kvs"
  "put_all m (xs @ ys) = put_all (put_all m xs) ys"
  by (simp_all add: put_all_def)

lemma resolveAttr_flatten:
  "resolveAttr m grp a = put_all m (flatten grp a)"
  "resolveAttrs m grp as = put_all m (flattens grp as)"
proof (induction m grp a and m grp as rule: resolveAttr_resolveAttrs.induct)
  case (1 m grp key v)
  then show ?case
    by (auto simp: resolveAttr.simps flatten.simps split: attr_value.splits)
qed simp_all

lemma map_of_put_all: "map_of (put_all m kvs) k =
    (case map_of (rev kvs) k of Some v \<Rightarrow> Some v | None \<Rightarrow> map_of m k)"
  by (induction kvs arbitrary: m) (auto simp: update_conv' map_add_def split: option.splits)

lemma distinct_put_all: "distinct (map fst m) \<Longrightarrow> distinct (map fst (put_all m kvs))"
  by (induction kvs arbitrary: m) (auto simp: distinct_update)

section \<open>Records and the database handler\<close>

record slog_record =
  rc_time :: "gotime option"
  rc_level :: level
  rc_msg :: string
  rc_attrs :: "attr list"

record db_record =
  dr_ts :: gotime
  dr_level :: string
  dr_msg :: string
  dr_attrs :: attr_map

record db_handler =
  dh_min :: level
  dh_pre :: attr_map
  dh_group :: string

definition new_db_handler :: "level \<Rightarrow> db_handler" where
  "new_db_handler minLevel = \<lparr>dh_min = minLevel, dh_pre = [], dh_group = []\<rparr>"

definition db_enabled :: "db_handler \<Rightarrow> level \<Rightarrow> bool" where
  "db_enabled h l \<longleftrightarrow> l \<ge> dh_min h"

definition db_withAttrs :: "db_handler \<Rightarrow> attr list \<Rightarrow> db_handler" where
  "db_withAttrs h as = h\<lparr>dh_pre := resolveAttrs (dh_pre h) (dh_group h) as\<rparr>"

definition db_withGroup :: "db_handler \<Rightarrow> string \<Rightarrow> db_handler" where
  "db_withGroup h name = h\<lparr>dh_group := qualify (dh_group h) name\<rparr>"

text \<open>slog.Level.String\<close>

definition level_base :: "string \<Rightarrow> int \<Rightarrow> string" where
  "level_base base d =
     (if d = 0 then base else base @ (if d < 0 then [] else ''+'') @ itoa d)"

definition level_string :: "level \<Rightarrow> string" where
  "level_string l =
     (if l < levelInfo then level_base ''DEBUG'' (level_val l - level_val levelDebug)
      else if l < levelWarn then level_base ''INFO'' (level_val l - level_val levelInfo)
      else if l < levelError then level_base ''WARN'' (level_val l - level_val levelWarn)
      else level_base ''ERROR'' (level_val l - level_val levelError))"

text \<open>The record that Handle queues; a zero time is replaced by the current one.\<close>

definition build_record :: "db_handler \<Rightarrow> gotime \<Rightarrow> slog_record \<Rightarrow> db_record" where
  "build_record h now r =
     \<lparr>dr_ts = (case rc_time r of Some t \<Rightarrow> t | None \<Rightarrow> now),
      dr_level = level_string (rc_level r),
      dr_msg = rc_msg r,
      dr_attrs = resolveAttrs (dh_pre h) (dh_group h) (rc_attrs r)\<rparr>"

section \<open>The shared queue\<close>

definition bufferSize :: nat where "bufferSize = 512"

record shared_stop =
  ss_stopped :: bool
  ss_once :: bool
  ss_closed :: bool
  ss_queue :: "db_record list"
  ss_done :: bool

definition new_shared :: shared_stop where
  "new_shared = \<lparr>ss_stopped = False, ss_once = False, ss_closed = False, ss_queue = [], ss_done = False\<rparr>"

text \<open>
  The non-blocking send of Handle's select: a full buffer drops the record, a closed channel
  panics (\<open>None\<close>).
\<close>

definition send_record :: "db_record \<Rightarrow> shared_stop \<Rightarrow> shared_stop option" where
  "send_record rec ss =
     (if ss_closed ss then None
      else if length (ss_queue ss) < bufferSize then Some (ss\<lparr>ss_queue := ss_queue ss @ [rec]\<rparr>)
      else Some ss)"

definition db_handle :: "db_handler \<Rightarrow> gotime \<Rightarrow> slog_record \<Rightarrow> shared_stop \<Rightarrow> shared_stop option" where
  "db_handle h now r ss =
     (if ss_stopped ss then Some ss
      else (let rec = build_record h now r in
            if ss_stopped ss then Some ss else send_record rec ss))"

text \<open>The body of once.Do in Stop; a second call finds the once spent.\<close>

definition stop_signal :: "shared_stop \<Rightarrow> shared_stop" where
  "stop_signal ss =
     (if ss_once ss then ss
      else ss\<lparr>ss_once := True, ss_stopped := True, ss_closed := True\<rparr>)"

section \<open>Writing a record to app_logs\<close>

text \<open>
  json.Marshal of the attribute map: keys sorted, values encoded by their dynamic type. An
  error made by errors.New or fmt.Errorf has no exported field and no MarshalJSON method,
  so it is encoded as an empty object.
\<close>

fun marshal_any :: "any \<Rightarrow> string" where
  "marshal_any (AnyStr s) = json_quote s"
| "marshal_any (AnyInt n) = itoa n"
| "marshal_any (AnyBool b) = (if b then ''true'' else ''false'')"
| "marshal_any (AnyErr e) = ''{}''"

definition marshal_attrs :: "attr_map \<Rightarrow> string" where
  "marshal_attrs m =
     ''{'' @ join_with '','' (map (\<lambda>(k, v). json_quote k @ '':'' @ marshal_any v) (sort_key fst m)) @ ''}''"

definition sql_insert_log ::
    "gotime \<Rightarrow> string \<Rightarrow> string \<Rightarrow> string option \<Rightarrow> database \<Rightarrow> db_error + database \<times> unit" where
  "sql_insert_log ts lv msg attrs db =
     Inr (db\<lparr>app_logs := app_logs db @
       [\<lparr>lg_id = next_serial (map lg_id (app_logs db)), lg_ts = ts, lg_level = lv, lg_msg = msg,
         lg_attrs = attrs\<rparr>]\<rparr>, ())"

definition insert_record :: "bool \<Rightarrow> outcome \<Rightarrow> db_record \<Rightarrow> database \<Rightarrow> database" where
  "insert_record pool out rec db =
     (if \<not> pool then db
      else fst (exec_stmt out (sql_insert_log (dr_ts rec) (dr_level rec) (dr_msg rec)
             (if dr_attrs rec \<noteq> [] then Some (marshal_attrs (dr_attrs rec)) else None)) db))"

section \<open>Handlers and the fan-out\<close>

text \<open>
  The two kinds of slog.Handler in use and MultiHandler. Of the JSON handler of log/slog only
  what reaches it is modelled: the record, with the groups and attributes its copies carry.
\<close>

datatype goa = GoaAttrs "attr list" | GoaGroup string

datatype log_handler =
    StdoutHandler level "goa list"
  | DbHandler db_handler
  | MultiHandler "log_handler list"

record log_io =
  io_stdout :: "(goa list \<times> slog_record) list"
  io_shared :: shared_stop

fun h_enabled :: "log_handler \<Rightarrow> level \<Rightarrow> bool" where
  "h_enabled (StdoutHandler lv goas) l = (l \<ge> lv)"
| "h_enabled (DbHandler h) l = db_enabled h l"
| "h_enabled (MultiHandler hs) l = list_ex (\<lambda>h. h_enabled h l) hs"

fun h_withAttrs :: "attr list \<Rightarrow> log_handler \<Rightarrow> log_handler" where
  "h_withAttrs as (StdoutHandler lv goas) = StdoutHandler lv (goas @ [GoaAttrs as])"
| "h_withAttrs as (DbHandler h) = DbHandler (db_withAttrs h as)"
| "h_withAttrs as (MultiHandler hs) = MultiHandler (map (h_withAttrs as) hs)"

fun h_withGroup :: "string \<Rightarrow> log_handler \<Rightarrow> log_handler" where
  "h_withGroup g (StdoutHandler lv goas) = StdoutHandler lv (goas @ [GoaGroup g])"
| "h_withGroup g (DbHandler h) = DbHandler (db_withGroup h g)"
| "h_withGroup g (MultiHandler hs) = MultiHandler (map (h_withGroup g) hs)"

fun h_handle :: "gotime \<Rightarrow> slog_record \<Rightarrow> log_handler \<Rightarrow> log_io \<Rightarrow> log_io option"
  and h_handle_all :: "gotime \<Rightarrow> slog_record \<Rightarrow> log_handler list \<Rightarrow> log_io \<Rightarrow> log_io option"
where
  "h_handle now r (StdoutHandler lv goas) io = Some (io\<lparr>io_stdout := io_stdout io @ [(goas, r)]\<rparr>)"
| "h_handle now r (DbHandler h) io =
     map_option (\<lambda>ss. io\<lparr>io_shared := ss\<rparr>) (db_handle h now r (io_shared io))"
| "h_handle now r (MultiHandler hs) io = h_handle_all now r hs io"
| "h_handle_all now r [] io = Some io"
| "h_handle_all now r (h # hs) io =
     (case (if h_enabled h (rc_level r) then h_handle now r h io else Some io) of
        None \<Rightarrow> None
      | Some io' \<Rightarrow> h_handle_all now r hs io')"

text \<open>slog.Logger.log: a disabled level is skipped before the handler is called.\<close>

definition logger_log :: "gotime \<Rightarrow> log_handler \<Rightarrow> slog_record \<Rightarrow> log_io \<Rightarrow> log_io option" where
  "logger_log now h r io = (if h_enabled h (rc_level r) then h_handle now r h io else Some io)"

section \<open>The contract of derived handlers\<close>

text \<open>
  What slog.Logger relies on when it derives loggers with With and WithGroup: the derived
  handler is enabled for the same levels. Derivations compose.
\<close>

datatype derivation = WithAttrs "attr list" | WithGroup string

locale derivable_handler =
  fixes enabled :: "'h \<Rightarrow> level \<Rightarrow> bool"
    and withAttrs :: "attr list \<Rightarrow> 'h \<Rightarrow> 'h"
    and withGroup :: "string \<Rightarrow> 'h \<Rightarrow> 'h"
  assumes enabled_withAttrs: "enabled (withAttrs as h) l = enabled h l"
    and enabled_withGroup: "enabled (withGroup g h) l = enabled h l"
begin

fun derive :: "derivation list \<Rightarrow> 'h \<Rightarrow> 'h" where
  "derive [] h = h"
| "derive (WithAttrs as # ds) h = derive ds (withAttrs as h)"
| "derive (WithGroup g # ds) h = derive ds (withGroup g h)"

lemma enabled_derive: "enabled (derive ds h) l = enabled h l"
  by (induction ds h rule: derive.induct) (simp_all add: enabled_withAttrs enabled_withGroup)

end

lemma h_enabled_derived:
  "h_enabled (h_withAttrs as h) l = h_enabled h l"
  "h_enabled (h_withGroup g h) l = h_enabled h l"
  by (induction h l rule: h_enabled.induct)
    (auto simp: db_withAttrs_def db_withGroup_def db_enabled_def list_ex_iff)

interpretation handler: derivable_handler h_enabled h_withAttrs h_withGroup
  by unfold_locales (simp_all add: h_enabled_derived)

section \<open>Properties\<close>

text \<open>resolveAttr writes exactly the flattened attribute into the map: every key is
  either the last value that flattening gives it, or untouched; keys stay distinct.\<close>

lemma resolveAttr_is_flatten:
  "map_of (resolveAttr m grp a) k =
    (case map_of (rev (flatten grp a)) k of Some v \<Rightarrow> Some v | None \<Rightarrow> map_of m k) \<and>
   (distinct (map fst m) \<longrightarrow> distinct (map fst (resolveAttr m grp a)))"
  by (simp add: resolveAttr_flatten map_of_put_all distinct_put_all)

text \<open>Group scoping. For a logger derived with attributes first and a group afterwards,
  the record's own attributes get the group prefix and the earlier ones do not, for every
  handler the derivation starts from.\<close>

lemma group_scoping:
  "dr_attrs (build_record (db_withGroup (db_withAttrs h as) g) now r) =
    put_all (put_all (dh_pre h) (flattens (dh_group h) as))
      (flattens (qualify (dh_group h) g) (rc_attrs r))"
  by (simp add: build_record_def db_withGroup_def db_withAttrs_def resolveAttr_flatten)

text \<open>The fan-out of the running server. A record logged through the two-handler
  MultiHandler reaches stdout exactly when its level passes the stdout level, and the queue
  exactly when its level passes the database level, the handler is not stopped and the
  buffer has room; neither sink depends on the other.\<close>

lemma fanout_delivers:
  assumes "ss_closed (io_shared io) \<longrightarrow> ss_stopped (io_shared io)"
  shows "logger_log now (MultiHandler [StdoutHandler lv goas, DbHandler h]) r io =
    Some \<lparr>io_stdout = io_stdout io @ (if rc_level r \<ge> lv then [(goas, r)] else []),
      io_shared =
        (if rc_level r \<ge> dh_min h \<and> \<not> ss_stopped (io_shared io) \<and>
            length (ss_queue (io_shared io)) < bufferSize
         then (io_shared io)\<lparr>ss_queue := ss_queue (io_shared io) @ [build_record h now r]\<rparr>
         else io_shared io)\<rparr>"
  using assms
  by (cases io) (auto simp: logger_log_def db_enabled_def db_handle_def send_record_def)

text \<open>The table loses the text of errors. An attribute whose value is an error made by
  the service's own fmt.Errorf or errors.New calls is stored in app_logs as an empty object,
  so the stored attributes are the same for every error.\<close>

lemma error_attr_lost:
  "marshal_attrs [(''err'', AnyErr e)] = ''{'' @ json_quote ''err'' @ '':{}}''"
  by (simp add: marshal_attrs_def)

end
