(* ===== verification/Http.thy ===== *)
theory Http
  imports Logger
begin

text \<open>
  What the handlers use of net/http: the request as the server has parsed it, the response
  writer with its header map and the one-time WriteHeader, http.Error and http.NotFound;
  and the state a handler works on. A handler may also panic; the writer keeps what was
  written up to then.
\<close>

section \<open>Requests\<close>

record request =
  rq_method :: string
  rq_path :: string
  rq_escaped :: string
  rq_host :: string
  rq_remote :: string
  rq_headers :: "(string \<times> string) list"
  rq_query :: "(string \<times> string) list"
  rq_form :: "(string \<times> string) list"
  rq_token :: string
  rq_body :: string

text \<open>Header.Get and url.Values.Get: the first value of a key, else the empty string.\<close>

definition get_first :: "(string \<times> string) list \<Rightarrow> string \<Rightarrow> string" where
  "get_first kvs k = (case map_of kvs k of Some v \<Rightarrow> v | None \<Rightarrow> [])"

abbreviation header_get :: "request \<Rightarrow> string \<Rightarrow> string" where
  "header_get r k \<equiv> get_first (rq_headers r) k"

text \<open>Request.FormValue: the parameters of the body come before those of the URL.\<close>

definition form_value :: "request \<Rightarrow> string \<Rightarrow> string" where
  "form_value r k = get_first (rq_form r @ rq_query r) k"

section \<open>Responses\<close>

record response =
  rs_headers :: "(string \<times> string) list"
  rs_status :: "nat option"
  rs_sent :: "(string \<times> string) list"
  rs_body :: string

definition new_response :: response where
  "new_response = \<lparr>rs_headers = [], rs_status = None, rs_sent = [], rs_body = []\<rparr>"

definition set_header :: "string \<Rightarrow> string \<Rightarrow> response \<Rightarrow> response" where
  "set_header k v w = w\<lparr>rs_headers := AList.update k v (rs_headers w)\<rparr>"

definition write_header :: "nat \<Rightarrow> response \<Rightarrow> response" where
  "write_header code w =
     (case rs_status w of
        None \<Rightarrow> w\<lparr>rs_status := Some code, rs_sent := rs_headers w\<rparr>
      | Some _ \<Rightarrow> w)"

definition write_body :: "string \<Rightarrow> response \<Rightarrow> response" where
  "write_body s w = (let w' = write_header 200 w in w'\<lparr>rs_body := rs_body w' @ s\<rparr>)"

definition http_error :: "string \<Rightarrow> nat \<Rightarrow> response \<Rightarrow> response" where
  "http_error msg code w =
     write_body (msg @ [char_of (10 :: nat)])
       (write_header code
         (set_header ''X-Content-Type-Options'' ''nosniff''
           (set_header ''Content-Type'' ''text/plain; charset=utf-8'' w)))"

definition not_found :: "response \<Rightarrow> response" where
  "not_found w = http_error ''404 page not found'' 404 w"

text \<open>When the handler returns without a WriteHeader, the server sends 200 with the headers set.\<close>

definition finish :: "response \<Rightarrow> response" where
  "finish w = write_header 200 w"

definition status_of :: "response \<Rightarrow> nat" where
  "status_of w = (case rs_status (finish w) of Some c \<Rightarrow> c | None \<Rightarrow> 200)"

definition sent_header :: "response \<Rightarrow> string \<Rightarrow> string option" where
  "sent_header w k = map_of (rs_sent (finish w)) k"

section \<open>The state behind the handlers\<close>

text \<open>
  The database, and the records given to the logger so far. Servers extend it with the
  states of their rate limiters.
\<close>

record world =
  w_db :: database
  w_logs :: "slog_record list"

definition log_at :: "level \<Rightarrow> string \<Rightarrow> attr list \<Rightarrow> 'a world_scheme \<Rightarrow> 'a world_scheme" where
  "log_at l msg as w =
     w\<lparr>w_logs := w_logs w @ [\<lparr>rc_time = None, rc_level = l, rc_msg = msg, rc_attrs = as\<rparr>]\<rparr>"

abbreviation str_attr :: "string \<Rightarrow> string \<Rightarrow> attr" where
  "str_attr k v \<equiv> (k, VAny (AnyStr v))"

abbreviation err_attr :: "string \<Rightarrow> string \<Rightarrow> attr" where
  "err_attr k e \<equiv> (k, VAny (AnyErr e))"

datatype 'w hres = Done 'w response | Panicked 'w response any

type_synonym 'w handler = "request \<Rightarrow> 'w \<Rightarrow> response \<Rightarrow> 'w hres"

fun hres_world :: "'w hres \<Rightarrow> 'w" where
  "hres_world (Done w rw) = w"
| "hres_world (Panicked w rw p) = w"

fun hres_response :: "'w hres \<Rightarrow> response" where
  "hres_response (Done w rw) = rw"
| "hres_response (Panicked w rw p) = rw"

fun hres_panicked :: "'w hres \<Rightarrow> bool" where
  "hres_panicked (Done w rw) = False"
| "hres_panicked (Panicked w rw p) = True"

section \<open>Lemmas\<close>

lemma map_of_set_header [simp]:
  "map_of (rs_headers (set_header k v w)) k' = (if k' = k then Some v else map_of (rs_headers w) k')"
  by (simp add: set_header_def update_conv')

lemma set_header_frame [simp]:
  "rs_status (set_header k v w) = rs_status w" "rs_sent (set_header k v w) = rs_sent w"
  "rs_body (set_header k v w) = rs_body w"
  by (simp_all add: set_header_def)

lemma write_header_simps [simp]:
  "rs_headers (write_header c w) = rs_headers w" "rs_body (write_header c w) = rs_body w"
  "rs_status w = None \<Longrightarrow> rs_status (write_header c w) = Some c"
  "rs_status w = None \<Longrightarrow> rs_sent (write_header c w) = rs_headers w"
  "rs_status w = Some d \<Longrightarrow> write_header c w = w"
  by (simp_all add: write_header_def split: option.splits)

lemma write_body_simps [simp]:
  "rs_headers (write_body s w) = rs_headers w" "rs_body (write_body s w) = rs_body w @ s"
  "rs_status (write_body s w) = rs_status (write_header 200 w)"
  "rs_sent (write_body s w) = rs_sent (write_header 200 w)"
  by (simp_all add: write_body_def Let_def)

lemma write_header_committed: "rs_status (write_header c w) \<noteq> None"
  by (simp add: write_header_def split: option.splits)

lemma status_http_error [status_simps]:
  "status_of (http_error msg code w) = (case rs_status w of None \<Rightarrow> code | Some c \<Rightarrow> c)"
  by (cases "rs_status w") (simp_all add: status_of_def finish_def http_error_def)

lemma status_write_body [status_simps]:
  "status_of (write_body b (write_header c w)) = (case rs_status w of None \<Rightarrow> c | Some d \<Rightarrow> d)"
  by (cases "rs_status w") (simp_all add: status_of_def finish_def)

lemma body_http_error [simp]:
  "rs_body (http_error msg code w) = rs_body w @ msg @ [char_of (10 :: nat)]"
  by (simp add: http_error_def)

lemma log_at_db [simp]: "w_db (log_at l msg as w) = w_db w"
  by (simp add: log_at_def)

lemma log_at_logs [simp]:
  "w_logs (log_at l msg as w) =
    w_logs w @ [\<lparr>rc_time = None, rc_level = l, rc_msg = msg, rc_attrs = as\<rparr>]"
  by (simp add: log_at_def)

section \<open>Headers that survive\<close>

text \<open>
  A header set before the handler runs reaches the client unless the handler sets it
  itself: \<open>guarded kvs\<close> says that the header map, and the header lines already sent if
  the response is committed, have the pairs \<open>kvs\<close>.
\<close>

definition guarded :: "(string \<times> string) list \<Rightarrow> response \<Rightarrow> bool" where
  "guarded kvs w \<longleftrightarrow>
     (\<forall>(k, v) \<in> set kvs. map_of (rs_headers w) k = Some v \<and>
        (rs_status w \<noteq> None \<longrightarrow> map_of (rs_sent w) k = Some v))"

lemma guarded_set_header:
  "guarded kvs w \<Longrightarrow> \<forall>(k', v') \<in> set kvs. k' = k \<longrightarrow> v' = v \<Longrightarrow> guarded kvs (set_header k v w)"
  by (fastforce simp: guarded_def)

lemma guarded_write_header: "guarded kvs w \<Longrightarrow> guarded kvs (write_header c w)"
  by (cases "rs_status w") (auto simp: guarded_def)

lemma guarded_write_body: "guarded kvs w \<Longrightarrow> guarded kvs (write_body s w)"
  using guarded_write_header [of kvs w 200] by (simp add: guarded_def)

lemma guarded_sent: "guarded kvs w \<Longrightarrow> (k, v) \<in> set kvs \<Longrightarrow> sent_header w k = Some v"
  using guarded_write_header [of kvs w 200] write_header_committed [of 200 w]
  by (auto simp: guarded_def sent_header_def finish_def)

end
