(* ===== verification/Middleware.thy ===== *)
theory Middleware
  imports Http
begin

text \<open>
  internal/handler/handler.go, the part around the handlers: probe detection, masking of
  tokens in logged paths, and the middleware that sets the security headers, blocks probes,
  logs the request and recovers from panics. The case tables of the unicode package are the
  argument \<open>uc\<close>.
\<close>

section \<open>Probe detection\<close>

definition probePatterns :: "string list" where
  "probePatterns =
    [''/robots.txt'', ''/sitemap.xml'', ''/favicon.ico'', ''/.well-known/'', ''/wp-json/'',
     ''/wp-admin'', ''/wp-content'', ''/.env'', ''/.env.local'', ''/web.config'',
     ''/config.php'', ''/settings.php'', ''/.htaccess'', ''/xmlrpc.php'', ''/.github'',
     ''/.gitlab'', ''/.hg'', ''/.svn'', ''/app.py'', ''/main.py'', ''/index.php'',
     ''/config.json'', ''/version.txt'', ''/api/'', ''/admin'', ''/backup'', ''/uploads'',
     ''/images'', ''/assets'', ''/__pycache__'', ''/node_modules'']"

definition isProbeRequest :: "unicode_tables \<Rightarrow> string \<Rightarrow> bool" where
  "isProbeRequest uc path =
     (let lowerPath = toLower uc path in
      if hasPrefix lowerPath ''/.git'' \<or> contains lowerPath ''/.git/'' then True
      else list_ex (\<lambda>pattern. equalFold uc lowerPath pattern \<or> hasPrefix lowerPath pattern)
             probePatterns)"

section \<open>Masking\<close>

definition maskTokenInPath :: "string \<Rightarrow> string" where
  "maskTokenInPath path =
     (if \<not> hasPrefix path ''/s/'' then path
      else
        (let parts = split_on (CHR ''/'') path in
         if 3 \<le> length parts \<and> parts ! 2 \<noteq> [] then join_with ''/'' (parts[2 := ''[token]''])
         else path))"

section \<open>The middleware\<close>

definition security_headers :: "(string \<times> string) list" where
  "security_headers =
    [(''X-Content-Type-Options'', ''nosniff''),
     (''X-Frame-Options'', ''DENY''),
     (''Referrer-Policy'', ''no-referrer''),
     (''Permissions-Policy'', ''interest-cohort=()''),
     (''Strict-Transport-Security'', ''max-age=63072000; includeSubDomains; preload''),
     (''Content-Security-Policy'',
      ''default-src 'self'; script-src 'self'; style-src 'self'; font-src 'self'; img-src 'self' data:; connect-src 'self'; frame-ancestors 'none';'')]"

definition set_headers :: "(string \<times> string) list \<Rightarrow> response \<Rightarrow> response" where
  "set_headers kvs rw = fold (\<lambda>(k, v). set_header k v) kvs rw"

definition middleware :: "unicode_tables \<Rightarrow> 'a world_scheme handler \<Rightarrow> 'a world_scheme handler" where
  "middleware uc next = (\<lambda>r w rw.
     let rw1 = set_headers security_headers rw in
     if isProbeRequest uc (rq_path r) then
       Done (log_at levelWarn ''probe request blocked''
               [str_attr ''method'' (rq_method r), str_attr ''path'' (rq_path r),
                str_attr ''remote'' (rq_remote r)] w)
            (write_header 418 rw1)
     else
       (let maskedPath = maskTokenInPath (rq_path r) in
        case next r (log_at levelInfo ''request''
                      [str_attr ''method'' (rq_method r), str_attr ''path'' maskedPath,
                       str_attr ''remote'' (rq_remote r)] w) rw1 of
          Done w' rw' \<Rightarrow> Done w' rw'
        | Panicked w' rw' rec \<Rightarrow>
            Done (log_at levelError ''panic recovered''
                    [(''panic'', VAny rec), str_attr ''path'' maskedPath] w')
                 (http_error ''internal server error'' 500 rw')))"

section \<open>Lemmas\<close>

lemma guarded_set_headers:
  assumes "distinct (map fst kvs)" "rs_status rw = None"
  shows "guarded kvs (set_headers kvs rw)"
proof -
  have s: "rs_status (set_headers l rw') = rs_status rw'" for l rw'
    by (induction l arbitrary: rw') (auto simp: set_headers_def)
  have k: "map_of (rs_headers (set_headers l rw')) k = map_of (rs_headers rw') k"
    if "k \<notin> set (map fst l)" for l k rw'
    using that by (induction l arbitrary: rw') (auto simp: set_headers_def)
  have "map_of (rs_headers (set_headers l rw')) k = Some v"
    if "distinct (map fst l)" "(k, v) \<in> set l" for l k v rw'
    using that
  proof (induction l arbitrary: rw')
    case (Cons p l)
    then show ?case
      using k [of k l "set_header k v rw'"]
      by (cases p) (force simp: set_headers_def image_iff)
  qed simp
  with assms show ?thesis by (auto simp: guarded_def s)
qed

lemma distinct_security_headers: "distinct (map fst security_headers)"
  by (simp add: security_headers_def)

definition keeps_headers :: "'w handler \<Rightarrow> bool" where
  "keeps_headers h \<longleftrightarrow>
     (\<forall>r w rw. guarded security_headers rw \<longrightarrow> guarded security_headers (hres_response (h r w rw)))"

lemma nosniff_ok: "\<forall>(k', v') \<in> set security_headers. k' = ''X-Content-Type-Options'' \<longrightarrow> v' = ''nosniff''"
  by (simp add: security_headers_def)

lemma guarded_set_other [intro]:
  "guarded security_headers rw \<Longrightarrow> k \<in> {''Content-Type'', ''Retry-After'', ''WWW-Authenticate'', ''Location''} \<Longrightarrow>
   guarded security_headers (set_header k v rw)"
  by (rule guarded_set_header) (auto simp: security_headers_def)

lemma guarded_http_error [intro]:
  "guarded security_headers rw \<Longrightarrow> guarded security_headers (http_error msg c rw)"
  unfolding http_error_def
  by (intro guarded_write_body guarded_write_header guarded_set_header [OF _ nosniff_ok] guarded_set_other)
    simp_all

section \<open>Probe detection on ASCII paths\<close>

lemma lower_char_id: "\<not> (65 \<le> (of_char c :: nat) \<and> (of_char c :: nat) \<le> 90) \<Longrightarrow> lower_char c = c"
  by (auto simp: lower_char_def ascii_lower_def)

lemma lower_char_idem: "of_char c < (128 :: nat) \<Longrightarrow> lower_char (lower_char c) = lower_char c"
  by (auto simp: lower_char_def ascii_lower_def)

lemma ascii_map_lower: "ascii s \<Longrightarrow> ascii (map lower_char s)"
  by (auto simp: ascii_def list_all_iff of_char_lower_char ascii_lower_bound)

lemma map_lower_idem: "ascii s \<Longrightarrow> map lower_char (map lower_char s) = map lower_char s"
  by (auto simp: ascii_def list_all_iff lower_char_idem)

lemma patterns_ascii: "list_all ascii probePatterns"
  by (simp add: probePatterns_def)

lemma patterns_lower: "list_all (\<lambda>p. map lower_char p = p) probePatterns"
  by (simp add: probePatterns_def lower_char_id)

lemma pattern_ascii: "p \<in> set probePatterns \<Longrightarrow> ascii p"
  using patterns_ascii by (simp add: list_all_iff)

lemma pattern_lower: "p \<in> set probePatterns \<Longrightarrow> map lower_char p = p"
  using patterns_lower unfolding list_all_iff by blast

lemma isProbeRequest_ascii:
  assumes "ascii path"
  shows "isProbeRequest uc path \<longleftrightarrow>
    contains (map lower_char path) ''/.git/'' \<or>
    list_ex (hasPrefix (map lower_char path)) (''/.git'' # probePatterns)"
proof -
  have "equalFold uc (map lower_char path) p \<Longrightarrow> hasPrefix (map lower_char path) p"
    if "p \<in> set probePatterns" for p
    using equalFold_ascii [OF ascii_map_lower [OF assms] pattern_ascii [OF that]]
      map_lower_idem [OF assms] pattern_lower [OF that]
    by (auto simp: hasPrefix_iff)
  then show ?thesis
    by (auto simp: isProbeRequest_def Let_def toLower_ascii_eq assms list_ex_iff)
qed

lemma contains_dot: "contains s ''/.git/'' \<Longrightarrow> CHR ''.'' \<in> set s"
  by (auto simp: contains_iff)

lemma no_dot_lower: "ascii s \<Longrightarrow> CHR ''.'' \<notin> set s \<Longrightarrow> CHR ''.'' \<notin> set (map lower_char s)"
proof
  assume a: "ascii s" "CHR ''.'' \<notin> set s" "CHR ''.'' \<in> set (map lower_char s)"
  then obtain c where c: "c \<in> set s" "lower_char c = CHR ''.''" by auto
  with a(1) have "ascii_lower (of_char c) = of_char (CHR ''.'')"
    by (metis ascii_def list_all_iff of_char_lower_char)
  hence "(of_char c :: nat) = of_char (CHR ''.'')" by (auto simp: ascii_lower_def split: if_splits)
  with a(2) c(1) show False by (simp only: of_char_eq_iff)
qed

lemma not_probe:
  assumes "ascii path" "CHR ''.'' \<notin> set path"
    and "\<not> list_ex (hasPrefix (map lower_char path)) (''/.git'' # probePatterns)"
  shows "\<not> isProbeRequest uc path"
  using isProbeRequest_ascii [OF assms(1)] contains_dot no_dot_lower [OF assms(1,2)] assms(3) by blast

lemma token_path_not_probe:
  assumes "ascii path" "CHR ''.'' \<notin> set path" "path = ''/s/'' @ rest"
  shows "\<not> isProbeRequest uc path"
  by (rule not_probe [OF assms(1,2)])
    (simp add: assms(3) lower_char_id probePatterns_def hasPrefix_def)

lemma hex_ascii: "list_all is_hex t \<Longrightarrow> ascii t \<and> CHR ''.'' \<notin> set t \<and> CHR ''/'' \<notin> set t"
  by (induction t) (auto simp: is_hex_def Let_def)

section \<open>Masked paths\<close>

lemma split_slash: "CHR ''/'' \<notin> set t \<Longrightarrow> split_on (CHR ''/'') (t @ CHR ''/'' # u) = t # split_on (CHR ''/'') u"
  by (simp add: split_on_append split_on_no_sep)

lemma mask_token:
  assumes "tok \<noteq> []" "CHR ''/'' \<notin> set tok" "rest = [] \<or> hd rest = CHR ''/''"
  shows "maskTokenInPath (''/s/'' @ tok @ rest) = ''/s/[token]'' @ rest"
proof -
  obtain qs where parts: "split_on (CHR ''/'') (tok @ rest) = tok # qs"
    and join: "rest = (case qs of [] \<Rightarrow> [] | _ \<Rightarrow> CHR ''/'' # join_with ''/'' qs)"
  proof (cases rest)
    case Nil
    with that [of "[]"] assms(2) show ?thesis by (simp add: split_on_no_sep)
  next
    case (Cons c u)
    with assms(3) have "c = CHR ''/''" by simp
    with that [of "split_on (CHR ''/'') u"] Cons assms(2) show ?thesis
      by (cases "split_on (CHR ''/'') u") (simp_all add: split_slash, metis join_split)
  qed
  have "split_on (CHR ''/'') (''/s/'' @ tok @ rest) = [] # ''s'' # tok # qs"
    by (simp add: parts)
  thus ?thesis
    using assms(1) join
    by (cases qs) (simp_all add: maskTokenInPath_def)
qed

section \<open>Properties\<close>

text \<open>The service's own URLs are never taken for probes: the index, the health pages, and
  the page and reveal URL of every token the service can generate.\<close>

lemma service_paths_pass:
  assumes "list_all is_hex tok"
  shows "\<not> isProbeRequest uc ''/'' \<and> \<not> isProbeRequest uc ''/health'' \<and>
    \<not> isProbeRequest uc ''/health/logs'' \<and> \<not> isProbeRequest uc ''/health/logs/clear'' \<and>
    \<not> isProbeRequest uc (''/s/'' @ tok) \<and> \<not> isProbeRequest uc (''/s/'' @ tok @ ''/reveal'')"
proof -
  have tok: "\<not> isProbeRequest uc (''/s/'' @ tok @ rest)" if "ascii rest" "CHR ''.'' \<notin> set rest" for rest
    using hex_ascii [OF assms] that by (intro token_path_not_probe [where rest = "tok @ rest"]) simp_all
  have "\<not> isProbeRequest uc p" if "p \<in> {''/'', ''/health'', ''/health/logs'', ''/health/logs/clear''}" for p
    using that by (intro not_probe) (auto simp: probePatterns_def lower_char_id)
  thus ?thesis using tok [of "[]"] tok [of "''/reveal''"] by simp
qed

text \<open>Masking. In a path "/s/TOKEN" or "/s/TOKEN/..." the token is replaced, whatever it
  is, and the rest is kept, so the logged path is the same for all tokens. A path with a
  doubled slash in front, which the router redirects to the clean one, is logged as it is.\<close>

lemma mask_hides_token:
  assumes "tok \<noteq> []" "CHR ''/'' \<notin> set tok" "rest = [] \<or> hd rest = CHR ''/''"
  shows "maskTokenInPath (''/s/'' @ tok @ rest) = ''/s/[token]'' @ rest \<and>
    maskTokenInPath (''//s/'' @ tok @ rest) = ''//s/'' @ tok @ rest"
  using mask_token [OF assms] by (simp add: maskTokenInPath_def)

text \<open>C22: The middleware on every branch, around any handler that does not overwrite the six
  security headers. They are on every response, of blocked probes and after panics too. A
  probe gets 418 and the handler does not run. Else the handler runs with the request logged;
  if it panics, the answer is 500 unless a status was already sent, the panic is logged, and
  the state is what the handler left.\<close>

theorem middleware_branches:
  assumes "keeps_headers next" "rs_status rw = None"
  shows "(\<forall>(k, v) \<in> set security_headers.
      sent_header (hres_response (middleware uc next r w rw)) k = Some v) \<and>
    \<not> hres_panicked (middleware uc next r w rw) \<and>
    (if isProbeRequest uc (rq_path r)
     then status_of (hres_response (middleware uc next r w rw)) = 418 \<and>
       w_db (hres_world (middleware uc next r w rw)) = w_db w
     else (let w1 = log_at levelInfo ''request''
             [str_attr ''method'' (rq_method r), str_attr ''path'' (maskTokenInPath (rq_path r)),
              str_attr ''remote'' (rq_remote r)] w
       in case next r w1 (set_headers security_headers rw) of
            Done w' rw' \<Rightarrow> middleware uc next r w rw = Done w' rw'
          | Panicked w' rw' p \<Rightarrow>
              w_db (hres_world (middleware uc next r w rw)) = w_db w' \<and>
              status_of (hres_response (middleware uc next r w rw)) =
                (case rs_status rw' of None \<Rightarrow> 500 | Some c \<Rightarrow> c)))"
proof -
  let ?rw1 = "set_headers security_headers rw"
  have s: "rs_status ?rw1 = None"
    using assms(2) by (simp add: set_headers_def security_headers_def)
  have g: "guarded security_headers ?rw1"
    using distinct_security_headers assms(2) by (rule guarded_set_headers)
  have "guarded security_headers (hres_response (middleware uc next r w rw))"
  proof (cases "isProbeRequest uc (rq_path r)")
    case True
    thus ?thesis using guarded_write_header [OF g] by (simp add: middleware_def Let_def)
  next
    case False
    have n: "guarded security_headers (hres_response (next r w1 ?rw1))" for w1
      using assms(1) g by (simp add: keeps_headers_def)
    show ?thesis
      using n [of "log_at levelInfo ''request''
             [str_attr ''method'' (rq_method r), str_attr ''path'' (maskTokenInPath (rq_path r)),
              str_attr ''remote'' (rq_remote r)] w"] False
      by (auto simp: middleware_def Let_def split: hres.splits)
  qed
  moreover have "status_of (write_header 418 ?rw1) = 418"
    using s by (simp add: status_of_def finish_def)
  ultimately show ?thesis
    by (auto simp: guarded_sent middleware_def Let_def status_simps split: hres.splits)
qed

definition demo_panicking :: "unit world_scheme handler" where
  "demo_panicking = (\<lambda>r w rw. Panicked w rw (AnyStr ''boom''))"

definition demo_get :: request where
  "demo_get = \<lparr>rq_method = ''GET'', rq_path = ''/'', rq_escaped = ''/'', rq_host = ''h'', rq_remote = ''10.0.0.1:99'',
     rq_headers = [], rq_query = [], rq_form = [], rq_token = [], rq_body = []\<rparr>"

theorem middleware_branches_witness:
  "\<exists>w rw. middleware \<lparr>uc_lower = id, uc_fold = (\<lambda>_ _. False)\<rparr> demo_panicking demo_get
      \<lparr>w_db = empty_db, w_logs = []\<rparr> new_response = Done w rw \<and> status_of rw = 500 \<and>
    sent_header rw ''X-Frame-Options'' = Some ''DENY''"
proof -
  let ?uc = "\<lparr>uc_lower = id, uc_fold = (\<lambda>_ _. False)\<rparr>" and ?w = "\<lparr>w_db = empty_db, w_logs = []\<rparr>"
  let ?h = "middleware ?uc demo_panicking demo_get ?w new_response"
  have k: "keeps_headers demo_panicking" by (simp add: keeps_headers_def demo_panicking_def)
  have s: "rs_status new_response = None" by (simp add: new_response_def)
  have "\<not> isProbeRequest ?uc ''/''" by (rule not_probe) (simp_all add: probePatterns_def lower_char_id)
  hence p: "\<not> isProbeRequest ?uc (rq_path demo_get)" by (simp add: demo_get_def)
  have ns: "rs_status (set_headers security_headers new_response) = None"
    by (simp add: set_headers_def security_headers_def new_response_def)
  from middleware_branches [OF k s, of ?uc demo_get ?w] p
  have "(''X-Frame-Options'', ''DENY'') \<in> set security_headers \<longrightarrow>
      sent_header (hres_response ?h) ''X-Frame-Options'' = Some ''DENY''"
    and "\<not> hres_panicked ?h" and "status_of (hres_response ?h) = 500"
    by (auto simp: demo_panicking_def Let_def ns)
  thus ?thesis by (cases ?h) (simp_all add: security_headers_def)
qed

end
