(* ===== verification/Repository.thy ===== *)
theory Repository
  imports Database
begin

text \<open>
  internal/repository/secret_repo.go: Store, FetchAndDelete, CleanupExpired and
  recordEvent. Each SQL text is a function on the tables (\<open>sql_...\<close>), each method runs its
  statements through \<open>exec_stmt\<close> and continues as the Go code does on errors.
\<close>

section \<open>Errors\<close>

text \<open>The error values of the repository and of the service above it, with fmt.Errorf's wrapping.\<close>

datatype err =
    ErrNotFound
  | ErrTooLarge
  | ErrDb db_error
  | ErrRand
  | Wrapped string err

fun errors_is :: "err \<Rightarrow> err \<Rightarrow> bool" where
  "errors_is (Wrapped m e) target = (Wrapped m e = target \<or> errors_is e target)"
| "errors_is e target = (e = target)"

section \<open>Statements\<close>

definition sql_insert_secret ::
    "gotime \<Rightarrow> string \<Rightarrow> string \<Rightarrow> bytes \<Rightarrow> bytes \<Rightarrow> gotime option \<Rightarrow> database \<Rightarrow>
     db_error + database \<times> unit" where
  "sql_insert_secret now uuid token ct nonce expires db =
     (if uuid \<in> s_id ` set (secrets db) \<or> token \<in> s_token ` set (secrets db)
      then Inl UniqueViolation
      else Inr (db\<lparr>secrets := secrets db @
                  [\<lparr>s_id = uuid, s_token = token, s_ciphertext = ct, s_nonce = nonce,
                    s_expires_at = expires, s_created_at = now\<rparr>]\<rparr>, ()))"

definition unexpired :: "gotime \<Rightarrow> secret \<Rightarrow> bool" where
  "unexpired now s \<longleftrightarrow> (case s_expires_at s of None \<Rightarrow> True | Some t \<Rightarrow> t > now)"

definition sql_take_secret ::
    "gotime \<Rightarrow> string \<Rightarrow> database \<Rightarrow> db_error + database \<times> secret option" where
  "sql_take_secret now token db =
     (let hit = (\<lambda>s. s_token s = token \<and> unexpired now s) in
      Inr (db\<lparr>secrets := filter (\<lambda>s. \<not> hit s) (secrets db)\<rparr>, find hit (secrets db)))"

definition past_expiry :: "gotime \<Rightarrow> secret \<Rightarrow> bool" where
  "past_expiry now s \<longleftrightarrow> (case s_expires_at s of None \<Rightarrow> False | Some t \<Rightarrow> t < now)"

definition sql_delete_expired :: "gotime \<Rightarrow> database \<Rightarrow> db_error + database \<times> int" where
  "sql_delete_expired now db =
     Inr (db\<lparr>secrets := filter (\<lambda>s. \<not> past_expiry now s) (secrets db)\<rparr>,
          int (length (filter (past_expiry now) (secrets db))))"

definition sql_insert_event ::
    "gotime \<Rightarrow> string \<Rightarrow> int \<Rightarrow> database \<Rightarrow> db_error + database \<times> unit" where
  "sql_insert_event now ty n db =
     (if ty \<notin> set event_types then Inl CheckViolation
      else Inr (db\<lparr>secret_events := secret_events db @
             [\<lparr>ev_id = next_serial (map ev_id (secret_events db)), ev_type = ty,
               ev_count = n, ev_ts = now\<rparr>]\<rparr>, ()))"

section \<open>Methods\<close>

text \<open>recordEvent discards the error of its statement.\<close>

definition recordEvent :: "call \<Rightarrow> string \<Rightarrow> int \<Rightarrow> database \<Rightarrow> database" where
  "recordEvent c ty n db = fst (exec_stmt (c_out c) (sql_insert_event (c_now c) ty n) db)"

text \<open>
  The expiry column of a new secret. \<open>time.Duration(n) * time.Second\<close> is an int64
  multiplication in nanoseconds. \<open>tz\<close> is the driver's encoding of a time.
\<close>

definition expiry_at :: "(gotime \<Rightarrow> gotime) \<Rightarrow> gotime \<Rightarrow> int \<Rightarrow> gotime option" where
  "expiry_at tz clock n =
     (if n > 0 then Some (tz (clock + wrap64 (n * 1000000000))) else None)"

record store_env =
  se_clock :: gotime
  se_uuid :: string
  se_insert :: call
  se_event :: call

definition store ::
    "(gotime \<Rightarrow> gotime) \<Rightarrow> store_env \<Rightarrow> string \<Rightarrow> create_input \<Rightarrow> database \<Rightarrow>
     database \<times> err option" where
  "store tz env token inp db =
     (case exec_stmt (c_out (se_insert env))
             (sql_insert_secret (c_now (se_insert env)) (se_uuid env) token
               (ci_ciphertext inp) (ci_nonce inp)
               (expiry_at tz (se_clock env) (ci_expires_in inp))) db of
        (db1, Inl e) \<Rightarrow> (db1, Some (Wrapped ''insert secret'' (ErrDb e)))
      | (db1, Inr _) \<Rightarrow> (recordEvent (se_event env) ''created'' 1 db1, None))"

record fetch_env =
  fe_delete :: call
  fe_event :: call

definition fetchAndDelete :: "fetch_env \<Rightarrow> string \<Rightarrow> database \<Rightarrow> database \<times> (err + secret)" where
  "fetchAndDelete env token db =
     (case exec_stmt (c_out (fe_delete env)) (sql_take_secret (c_now (fe_delete env)) token) db of
        (db1, Inl e) \<Rightarrow> (db1, Inl (Wrapped ''fetch and delete secret'' (ErrDb e)))
      | (db1, Inr None) \<Rightarrow> (db1, Inl ErrNotFound)
      | (db1, Inr (Some s)) \<Rightarrow> (recordEvent (fe_event env) ''retrieved'' 1 db1, Inr s))"

record cleanup_env =
  cl_delete :: call
  cl_event :: call

definition cleanupExpired :: "cleanup_env \<Rightarrow> database \<Rightarrow> database \<times> int \<times> err option" where
  "cleanupExpired env db =
     (case exec_stmt (c_out (cl_delete env)) (sql_delete_expired (c_now (cl_delete env))) db of
        (db1, Inl e) \<Rightarrow> (db1, 0, Some (Wrapped ''cleanup expired secrets'' (ErrDb e)))
      | (db1, Inr n) \<Rightarrow>
          ((if n > 0 then recordEvent (cl_event env) ''expired'' n db1 else db1), n, None))"

section \<open>Frame lemmas\<close>

lemma recordEvent_secrets [frame_simps]: "secrets (recordEvent c ty n db) = secrets db"
  unfolding recordEvent_def
  by (rule exec_stmt_preserves [where P = "\<lambda>d. secrets d = secrets db"])
    (auto simp: sql_insert_event_def split: if_splits)

lemma recordEvent_logs [frame_simps]: "app_logs (recordEvent c ty n db) = app_logs db"
  unfolding recordEvent_def
  by (rule exec_stmt_preserves [where P = "\<lambda>d. app_logs d = app_logs db"])
    (auto simp: sql_insert_event_def split: if_splits)

lemma unexpired_not_past: "unexpired now s \<Longrightarrow> \<not> past_expiry now s"
  by (auto simp: unexpired_def past_expiry_def split: option.splits)

lemma unexpired_mono: "unexpired now' s \<Longrightarrow> now \<le> now' \<Longrightarrow> unexpired now s"
  by (auto simp: unexpired_def split: option.splits)

section \<open>Constraints are kept\<close>

lemma sql_insert_secret_ok:
  "sql_insert_secret now uuid token ct nonce ex db = Inr (db', u) \<Longrightarrow> db_ok db \<Longrightarrow> db_ok db'"
  by (auto simp: sql_insert_secret_def db_ok_def split: if_splits)

lemma db_ok_filter: "db_ok db \<Longrightarrow> db_ok (db\<lparr>secrets := filter P (secrets db)\<rparr>)"
  by (simp add: db_ok_def distinct_map_filter)

lemma sql_insert_event_ok:
  "sql_insert_event now ty n db = Inr (db', u) \<Longrightarrow> db_ok db \<Longrightarrow> db_ok db'"
  by (auto simp: sql_insert_event_def db_ok_def split: if_splits)

lemma recordEvent_ok: "db_ok db \<Longrightarrow> db_ok (recordEvent c ty n db)"
  unfolding recordEvent_def
  by (rule exec_stmt_preserves [where P = db_ok]) (auto intro: sql_insert_event_ok)

lemma exec_insert_ok:
  "db_ok db \<Longrightarrow> db_ok (fst (exec_stmt out (sql_insert_secret now uuid token ct nonce ex) db))"
  by (rule exec_stmt_preserves [where P = db_ok]) (auto intro: sql_insert_secret_ok)

lemma exec_take_ok: "db_ok db \<Longrightarrow> db_ok (fst (exec_stmt out (sql_take_secret now token) db))"
  by (rule exec_stmt_preserves [where P = db_ok])
    (auto simp: sql_take_secret_def Let_def intro: db_ok_filter [unfolded Let_def])

lemma exec_delete_ok: "db_ok db \<Longrightarrow> db_ok (fst (exec_stmt out (sql_delete_expired now) db))"
  by (rule exec_stmt_preserves [where P = db_ok])
    (auto simp: sql_delete_expired_def intro: db_ok_filter)

lemma store_ok: "db_ok db \<Longrightarrow> db_ok (fst (store tz env token inp db))"
  using exec_insert_ok [of db "c_out (se_insert env)"]
  by (auto simp: store_def split: prod.splits sum.splits intro!: recordEvent_ok) (metis fst_conv)+

lemma fetchAndDelete_ok: "db_ok db \<Longrightarrow> db_ok (fst (fetchAndDelete env token db))"
  using exec_take_ok [of db "c_out (fe_delete env)" "c_now (fe_delete env)" token]
  by (auto simp: fetchAndDelete_def split: prod.splits sum.splits option.splits
      intro!: recordEvent_ok)

lemma cleanupExpired_ok: "db_ok db \<Longrightarrow> db_ok (fst (cleanupExpired env db))"
  using exec_delete_ok [of db "c_out (cl_delete env)" "c_now (cl_delete env)"]
  by (auto simp: cleanupExpired_def split: prod.splits sum.splits intro!: recordEvent_ok)

end
