(* ===== verification/Lifecycle.thy ===== *)
theory Lifecycle
  imports Repository
begin

text \<open>
  The life of a secret over whole executions. Requests run concurrently, and a statement is
  the unit of interleaving, so an execution is a sequence of statement steps (\<open>db_step\<close>),
  each labelled with what a client could see. The repository methods are shown to be such
  sequences, whatever their outcomes. Beside it stands the abstract store, a map from
  tokens to entries, which the methods refine when their statement is acknowledged.
\<close>

section \<open>Executions as sequences of statements\<close>

datatype label =
    LInsert string bytes bytes
  | LTake string "secret option"
  | LSweep
  | LEvent string int
  | LLogs

definition taken :: "db_error + secret option \<Rightarrow> secret option" where
  "taken r = (case r of Inr (Some s) \<Rightarrow> Some s | _ \<Rightarrow> None)"

inductive db_step :: "database \<Rightarrow> label \<Rightarrow> database \<Rightarrow> bool" where
  step_insert: "db_step db (LInsert token ct nonce)
     (fst (exec_stmt out (sql_insert_secret now uuid token ct nonce ex) db))"
| step_take: "db_step db (LTake token (taken (snd (exec_stmt out (sql_take_secret now token) db))))
     (fst (exec_stmt out (sql_take_secret now token) db))"
| step_sweep: "db_step db LSweep (fst (exec_stmt out (sql_delete_expired now) db))"
| step_event: "db_step db (LEvent ty n) (fst (exec_stmt out (sql_insert_event now ty n) db))"
| step_logs: "db_step db LLogs (db\<lparr>app_logs := logs\<rparr>)"

inductive db_run :: "database \<Rightarrow> label list \<Rightarrow> database \<Rightarrow> bool" where
  run_nil: "db_run db [] db"
| run_cons: "db_step db l db1 \<Longrightarrow> db_run db1 ls db2 \<Longrightarrow> db_run db (l # ls) db2"

inductive_cases db_step_insertE: "db_step db (LInsert token ct nonce) db'"
inductive_cases db_step_takeE: "db_step db (LTake token r) db'"
inductive_cases db_run_nilE [elim!]: "db_run db [] db'"
inductive_cases db_run_consE [elim!]: "db_run db (l # ls) db'"

lemma db_run_append: "db_run db ls db1 \<Longrightarrow> db_run db1 ls' db2 \<Longrightarrow> db_run db (ls @ ls') db2"
  by (induction rule: db_run.induct) (auto intro: run_cons)

lemma db_run_one: "db_step db l db' \<Longrightarrow> db_run db [l] db'"
  by (blast intro: run_cons run_nil)

lemma db_run_two: "db_step db l db1 \<Longrightarrow> db_step db1 l' db2 \<Longrightarrow> db_run db [l, l'] db2"
  by (blast intro: run_cons run_nil)

lemma db_run_split:
  "db_run db (ls @ ls') db2 \<Longrightarrow> \<exists>db1. db_run db ls db1 \<and> db_run db1 ls' db2"
  by (induction ls arbitrary: db) (auto intro: run_nil, metis run_cons)

lemma step_recordEvent: "db_step db (LEvent ty n) (recordEvent c ty n db)"
  by (simp add: recordEvent_def step_event)

lemma db_ok_logs: "db_ok (db\<lparr>app_logs := logs\<rparr>) = db_ok db"
  by (simp add: db_ok_def)

lemma db_step_ok: "db_step db l db' \<Longrightarrow> db_ok db \<Longrightarrow> db_ok db'"
proof (induction rule: db_step.induct)
  case (step_event db ty n out now)
  then show ?case using recordEvent_ok [of db "\<lparr>c_now = now, c_out = out\<rparr>"]
    by (simp add: recordEvent_def)
qed (simp_all add: exec_insert_ok exec_take_ok exec_delete_ok db_ok_logs)

lemma db_run_ok: "db_run db ls db' \<Longrightarrow> db_ok db \<Longrightarrow> db_ok db'"
  by (induction rule: db_run.induct) (auto intro: db_step_ok)

section \<open>The methods are executions\<close>

lemma store_run:
  "\<exists>ls. db_run db (LInsert token (ci_ciphertext inp) (ci_nonce inp) # ls)
      (fst (store tz env token inp db)) \<and> set ls \<subseteq> {LEvent ''created'' 1}"
proof -
  define r where "r = exec_stmt (c_out (se_insert env))
     (sql_insert_secret (c_now (se_insert env)) (se_uuid env) token (ci_ciphertext inp)
       (ci_nonce inp) (expiry_at tz (se_clock env) (ci_expires_in inp))) db"
  have ins: "db_step db (LInsert token (ci_ciphertext inp) (ci_nonce inp)) (fst r)"
    unfolding r_def by (rule step_insert)
  show ?thesis
  proof (cases "snd r")
    case (Inl e)
    then have "fst (store tz env token inp db) = fst r"
      by (simp add: store_def r_def [symmetric] case_prod_beta)
    with ins show ?thesis
      by (intro exI [of _ "[]"]) (auto intro: db_run_one)
  next
    case (Inr u)
    then have "fst (store tz env token inp db) = recordEvent (se_event env) ''created'' 1 (fst r)"
      by (simp add: store_def r_def [symmetric] case_prod_beta)
    with ins show ?thesis
      by (intro exI [of _ "[LEvent ''created'' 1]"]) (auto intro: db_run_two step_recordEvent)
  qed
qed

lemma fetchAndDelete_run:
  "\<exists>ls. db_run db (LTake token (case snd (fetchAndDelete env token db) of
        Inr s \<Rightarrow> Some s | Inl _ \<Rightarrow> None) # ls)
      (fst (fetchAndDelete env token db)) \<and> set ls \<subseteq> {LEvent ''retrieved'' 1}"
proof -
  define r where "r = exec_stmt (c_out (fe_delete env))
     (sql_take_secret (c_now (fe_delete env)) token) db"
  have tk: "db_step db (LTake token (taken (snd r))) (fst r)"
    unfolding r_def by (rule step_take)
  show ?thesis
  proof (cases "taken (snd r)")
    case None
    then have "fst (fetchAndDelete env token db) = fst r"
      "(case snd (fetchAndDelete env token db) of Inr s \<Rightarrow> Some s | Inl _ \<Rightarrow> None) = None"
      by (auto simp: fetchAndDelete_def r_def [symmetric] taken_def case_prod_beta
          split: sum.splits option.splits)
    with tk None show ?thesis
      by (intro exI [of _ "[]"]) (auto intro: db_run_one)
  next
    case (Some s)
    then have "fst (fetchAndDelete env token db) = recordEvent (fe_event env) ''retrieved'' 1 (fst r)"
      "(case snd (fetchAndDelete env token db) of Inr s \<Rightarrow> Some s | Inl _ \<Rightarrow> None) = Some s"
      by (auto simp: fetchAndDelete_def r_def [symmetric] taken_def case_prod_beta
          split: sum.splits option.splits)
    with tk Some show ?thesis
      by (intro exI [of _ "[LEvent ''retrieved'' 1]"]) (auto intro: db_run_two step_recordEvent)
  qed
qed

lemma cleanupExpired_run:
  "\<exists>ls. db_run db (LSweep # ls) (fst (cleanupExpired env db)) \<and>
     (\<forall>l\<in>set ls. \<exists>n. l = LEvent ''expired'' n)"
proof -
  define r where "r = exec_stmt (c_out (cl_delete env))
     (sql_delete_expired (c_now (cl_delete env))) db"
  have sw: "db_step db LSweep (fst r)"
    unfolding r_def by (rule step_sweep)
  show ?thesis
  proof (cases "\<exists>n. snd r = Inr n \<and> n > 0")
    case True
    then obtain n where "fst (cleanupExpired env db) = recordEvent (cl_event env) ''expired'' n (fst r)"
      by (auto simp: cleanupExpired_def r_def [symmetric] case_prod_beta)
    with sw show ?thesis
      by (intro exI [of _ "[LEvent ''expired'' n]"]) (auto intro: db_run_two step_recordEvent)
  next
    case False
    then have "fst (cleanupExpired env db) = fst r"
      by (auto simp: cleanupExpired_def r_def [symmetric] case_prod_beta split: sum.splits)
    with sw show ?thesis
      by (intro exI [of _ "[]"]) (auto intro: db_run_one)
  qed
qed

section \<open>Counting deliveries\<close>

definition live :: "string \<Rightarrow> database \<Rightarrow> nat" where
  "live token db = length (filter (\<lambda>s. s_token s = token) (secrets db))"

fun is_insert :: "string \<Rightarrow> label \<Rightarrow> bool" where
  "is_insert token (LInsert t _ _) = (t = token)"
| "is_insert token _ = False"

fun is_delivery :: "string \<Rightarrow> label \<Rightarrow> bool" where
  "is_delivery token (LTake t (Some _)) = (t = token)"
| "is_delivery token _ = False"

definition inserts :: "string \<Rightarrow> label list \<Rightarrow> nat" where
  "inserts token ls = length (filter (is_insert token) ls)"

definition deliveries :: "string \<Rightarrow> label list \<Rightarrow> nat" where
  "deliveries token ls = length (filter (is_delivery token) ls)"

lemma count_simps [simp]:
  "inserts token [] = 0" "deliveries token [] = 0"
  "inserts token (l # ls) = of_bool (is_insert token l) + inserts token ls"
  "deliveries token (l # ls) = of_bool (is_delivery token l) + deliveries token ls"
  "inserts token (ls @ ls') = inserts token ls + inserts token ls'"
  "deliveries token (ls @ ls') = deliveries token ls + deliveries token ls'"
  by (simp_all add: inserts_def deliveries_def)

lemma length_filter_sub_le:
  "(\<And>x. P x \<Longrightarrow> Q x) \<Longrightarrow> length (filter P xs) \<le> length (filter Q xs)"
  by (induction xs) auto

lemma length_filter_sub_less:
  "x \<in> set xs \<Longrightarrow> Q x \<Longrightarrow> \<not> P x \<Longrightarrow> (\<And>x. P x \<Longrightarrow> Q x) \<Longrightarrow>
    length (filter P xs) < length (filter Q xs)"
proof (induction xs)
  case (Cons y ys)
  then show ?case
    using length_filter_sub_le [of P Q ys] by (cases "x = y") auto
qed simp

lemma live_filter_le: "live token (db\<lparr>secrets := filter Q (secrets db)\<rparr>) \<le> live token db"
  unfolding live_def by (simp, rule length_filter_sub_le) simp

lemma live_app_logs [simp]: "live token (db\<lparr>app_logs := l\<rparr>) = live token db"
  by (simp add: live_def)

lemma take_decreases:
  assumes "taken (snd (exec_stmt out (sql_take_secret now t) db)) = Some s"
  shows "live t (fst (exec_stmt out (sql_take_secret now t) db)) < live t db"
proof -
  have "out = Applied" and found: "find (\<lambda>s. s_token s = t \<and> unexpired now s) (secrets db) = Some s"
    using assms by (auto simp: taken_def exec_stmt_def sql_take_secret_def Let_def
        split: sum.splits option.splits outcome.splits)
  then have "s \<in> set (secrets db)" "s_token s = t" "unexpired now s"
    by (auto simp: find_Some_iff)
  with \<open>out = Applied\<close> show ?thesis
    by (auto simp: exec_stmt_def sql_take_secret_def live_def intro!: length_filter_sub_less)
qed

lemma take_not_more: "live token (fst (exec_stmt out (sql_take_secret now t) db)) \<le> live token db"
  by (rule exec_stmt_preserves [where P = "\<lambda>d. live token d \<le> live token db"])
    (auto simp: sql_take_secret_def Let_def intro: live_filter_le [unfolded Let_def])

lemma step_counts:
  "db_step db l db' \<Longrightarrow>
    of_bool (is_delivery token l) + live token db' \<le> live token db + of_bool (is_insert token l)"
proof (induction rule: db_step.induct)
  case (step_insert db t ct nonce out now uuid ex)
  have "live token (fst (exec_stmt out (sql_insert_secret now uuid t ct nonce ex) db)) \<le>
      live token db + of_bool (t = token)"
    by (rule exec_stmt_preserves [where P = "\<lambda>d. live token d \<le> live token db + of_bool (t = token)"])
      (auto simp: sql_insert_secret_def live_def split: if_splits)
  then show ?case by simp
next
  case (step_take db t out now)
  show ?case
  proof (cases "taken (snd (exec_stmt out (sql_take_secret now t) db))")
    case None
    then show ?thesis by (simp add: take_not_more)
  next
    case (Some s)
    with take_decreases [OF Some] take_not_more [of token out now t db] show ?thesis
      by (cases "t = token") auto
  qed
next
  case (step_sweep db out now)
  have "live token (fst (exec_stmt out (sql_delete_expired now) db)) \<le> live token db"
    by (rule exec_stmt_preserves [where P = "\<lambda>d. live token d \<le> live token db"])
      (auto simp: sql_delete_expired_def intro: live_filter_le)
  then show ?case by simp
next
  case (step_event db ty n out now)
  have "secrets (fst (exec_stmt out (sql_insert_event now ty n) db)) = secrets db"
    using recordEvent_secrets [of "\<lparr>c_now = now, c_out = out\<rparr>"] by (simp add: recordEvent_def)
  then show ?case by (simp add: live_def)
qed simp

lemma run_counts:
  "db_run db ls db' \<Longrightarrow> deliveries token ls + live token db' \<le> live token db + inserts token ls"
proof (induction rule: db_run.induct)
  case (run_cons db l db1 ls db2)
  with step_counts [of db l db1 token] show ?case by simp
qed simp

section \<open>Where a delivered secret comes from\<close>

lemma step_rows:
  "db_step db l db' \<Longrightarrow> s \<in> set (secrets db') \<Longrightarrow>
    s \<in> set (secrets db) \<or> l = LInsert (s_token s) (s_ciphertext s) (s_nonce s)"
proof (induction rule: db_step.induct)
  case (step_insert db t ct nonce out now uuid ex)
  have "\<forall>s\<in>set (secrets (fst (exec_stmt out (sql_insert_secret now uuid t ct nonce ex) db))).
      s \<in> set (secrets db) \<or> LInsert t ct nonce = LInsert (s_token s) (s_ciphertext s) (s_nonce s)"
    by (rule exec_stmt_preserves [where P = "\<lambda>d. \<forall>s\<in>set (secrets d). s \<in> set (secrets db) \<or>
          LInsert t ct nonce = LInsert (s_token s) (s_ciphertext s) (s_nonce s)"])
      (auto simp: sql_insert_secret_def split: if_splits)
  with step_insert show ?case by blast
next
  case (step_take db t out now)
  have "set (secrets (fst (exec_stmt out (sql_take_secret now t) db))) \<subseteq> set (secrets db)"
    by (rule exec_stmt_preserves [where P = "\<lambda>d. set (secrets d) \<subseteq> set (secrets db)"])
      (auto simp: sql_take_secret_def Let_def)
  with step_take show ?case by blast
next
  case (step_sweep db out now)
  have "set (secrets (fst (exec_stmt out (sql_delete_expired now) db))) \<subseteq> set (secrets db)"
    by (rule exec_stmt_preserves [where P = "\<lambda>d. set (secrets d) \<subseteq> set (secrets db)"])
      (auto simp: sql_delete_expired_def)
  with step_sweep show ?case by blast
next
  case (step_event db ty n out now)
  then show ?case
    using recordEvent_secrets [of "\<lparr>c_now = now, c_out = out\<rparr>"] by (simp add: recordEvent_def)
qed simp

lemma step_take_row:
  "db_step db (LTake token (Some s)) db' \<Longrightarrow> s \<in> set (secrets db) \<and> s_token s = token"
  by (erule db_step_takeE)
    (auto simp: taken_def exec_stmt_def sql_take_secret_def Let_def find_Some_iff
      split: sum.splits option.splits outcome.splits)

lemma run_rows:
  "db_run db ls db' \<Longrightarrow> s \<in> set (secrets db') \<Longrightarrow>
    s \<in> set (secrets db) \<or> LInsert (s_token s) (s_ciphertext s) (s_nonce s) \<in> set ls"
  by (induction rule: db_run.induct) (auto dest: step_rows)

lemma run_delivery_source:
  assumes "db_run db ls db'" "LTake token (Some s) \<in> set ls"
  shows "s_token s = token \<and>
    (s \<in> set (secrets db) \<or> LInsert token (s_ciphertext s) (s_nonce s) \<in> set ls)"
proof -
  obtain xs ys where ls: "ls = xs @ LTake token (Some s) # ys"
    using assms(2) by (meson split_list)
  then obtain db1 where run: "db_run db xs db1" "db_run db1 (LTake token (Some s) # ys) db'"
    using assms(1) db_run_split [of db xs "LTake token (Some s) # ys" db'] by metis
  then obtain db2 where "db_step db1 (LTake token (Some s)) db2" by blast
  then have s: "s \<in> set (secrets db1)" "s_token s = token"
    by (auto dest: step_take_row)
  with run_rows [OF run(1) s(1)] ls show ?thesis by auto
qed

end
