(* ===== verification/Vault.thy ===== *)
theory Vault
  imports Lifecycle
begin

text \<open>
  What the repository promises to the layers above: the contract of a one-time store, as a
  locale over an abstract view (a partial map from tokens to secrets), with the lemmas that
  follow from the contract alone, and its interpretation on the model of the repository.
\<close>

section \<open>The contract of a one-time store\<close>

locale one_time_store =
  fixes inv :: "'s \<Rightarrow> bool"
    and view :: "'s \<Rightarrow> string \<Rightarrow> 'e option"
    and alive :: "gotime \<Rightarrow> 'e \<Rightarrow> bool"
    and take_out :: "gotime \<Rightarrow> string \<Rightarrow> 's \<Rightarrow> 's \<times> 'e option"
    and sweep :: "gotime \<Rightarrow> 's \<Rightarrow> 's"
  assumes take_inv: "inv s \<Longrightarrow> inv (fst (take_out now k s))"
    and take_view: "inv s \<Longrightarrow> view (fst (take_out now k s)) =
      (case view s k of
         Some e \<Rightarrow> if alive now e then (view s)(k := None) else view s
       | None \<Rightarrow> view s)"
    and take_result: "inv s \<Longrightarrow> snd (take_out now k s) =
      (case view s k of Some e \<Rightarrow> if alive now e then Some e else None | None \<Rightarrow> None)"
    and sweep_inv: "inv s \<Longrightarrow> inv (sweep now s)"
    and sweep_keeps: "inv s \<Longrightarrow> view s k = Some e \<Longrightarrow> alive now e \<Longrightarrow> view (sweep now s) k = Some e"
    and sweep_only: "inv s \<Longrightarrow> view (sweep now s) k = Some e \<Longrightarrow> view s k = Some e"
    and alive_mono: "now \<le> now' \<Longrightarrow> alive now' e \<Longrightarrow> alive now e"
begin

lemma take_empties:
  "inv s \<Longrightarrow> snd (take_out now k s) = Some e \<Longrightarrow> view (fst (take_out now k s)) k = None"
  by (auto simp: take_result take_view split: option.splits if_splits)

lemma take_once:
  "inv s \<Longrightarrow> snd (take_out now k s) = Some e \<Longrightarrow>
    snd (take_out now' k (fst (take_out now k s))) = None"
  using take_empties by (simp add: take_result take_inv)

lemma take_other:
  "inv s \<Longrightarrow> k' \<noteq> k \<Longrightarrow> snd (take_out now' k' (fst (take_out now k s))) = snd (take_out now' k' s)"
  by (auto simp: take_result take_inv take_view split: option.splits)

lemma take_failed_unchanged:
  "inv s \<Longrightarrow> snd (take_out now k s) = None \<Longrightarrow> view (fst (take_out now k s)) = view s"
  by (auto simp: take_result take_view split: option.splits if_splits)

lemma gone_stays_gone:
  "inv s \<Longrightarrow> now \<le> now' \<Longrightarrow> snd (take_out now k s) = None \<Longrightarrow> snd (take_out now' k s) = None"
  by (auto simp: take_result split: option.splits if_splits dest: alive_mono)

lemma sweep_invisible:
  assumes "inv s" "now \<le> now'"
  shows "snd (take_out now' k (sweep now s)) = snd (take_out now' k s)"
proof (cases "view (sweep now s) k")
  case None
  then have "\<not> alive now e" if "view s k = Some e" for e
    using sweep_keeps [OF assms(1)] that by fastforce
  with None assms show ?thesis
    by (auto simp: take_result sweep_inv split: option.splits dest: alive_mono)
next
  case (Some e)
  with assms sweep_only [OF assms(1)] show ?thesis
    by (simp add: take_result sweep_inv)
qed

end

text \<open>A store that also accepts entries: \<open>put\<close> reports whether the entry was taken in.\<close>

locale one_time_store_put = one_time_store inv view alive take_out sweep
  for inv :: "'s \<Rightarrow> bool" and view :: "'s \<Rightarrow> string \<Rightarrow> 'e option" and alive :: "gotime \<Rightarrow> 'e \<Rightarrow> bool"
    and take_out :: "gotime \<Rightarrow> string \<Rightarrow> 's \<Rightarrow> 's \<times> 'e option" and sweep :: "gotime \<Rightarrow> 's \<Rightarrow> 's" +
  fixes key :: "'e \<Rightarrow> string"
    and put :: "'e \<Rightarrow> 's \<Rightarrow> 's \<times> bool"
  assumes put_inv: "inv s \<Longrightarrow> inv (fst (put e s))"
    and put_view: "inv s \<Longrightarrow> snd (put e s) \<Longrightarrow> view (fst (put e s)) = (view s)(key e := Some e)"
    and put_new: "inv s \<Longrightarrow> snd (put e s) \<Longrightarrow> view s (key e) = None"
    and put_fails: "inv s \<Longrightarrow> \<not> snd (put e s) \<Longrightarrow> view (fst (put e s)) = view s"
begin

lemma put_then_take:
  "inv s \<Longrightarrow> snd (put e s) \<Longrightarrow> alive now e \<Longrightarrow>
    snd (take_out now (key e) (fst (put e s))) = Some e"
  by (simp add: take_result put_inv put_view)

lemma put_keeps_others:
  "inv s \<Longrightarrow> view s k = Some e' \<Longrightarrow> view (fst (put e s)) k = Some e'"
  using put_view [of s e] put_new [of s e] put_fails [of s e]
  by (cases "snd (put e s)") auto

end

section \<open>The repository as a one-time store\<close>

definition vault :: "database \<Rightarrow> string \<Rightarrow> secret option" where
  "vault db token = find (\<lambda>s. s_token s = token) (secrets db)"

definition acked :: "gotime \<Rightarrow> call" where
  "acked now = \<lparr>c_now = now, c_out = Applied\<rparr>"

definition take_acked :: "call \<Rightarrow> gotime \<Rightarrow> string \<Rightarrow> database \<Rightarrow> database \<times> secret option" where
  "take_acked ev now token db =
     (case fetchAndDelete \<lparr>fe_delete = acked now, fe_event = ev\<rparr> token db of
        (db', Inr s) \<Rightarrow> (db', Some s)
      | (db', Inl _) \<Rightarrow> (db', None))"

definition sweep_acked :: "call \<Rightarrow> gotime \<Rightarrow> database \<Rightarrow> database" where
  "sweep_acked ev now db = fst (cleanupExpired \<lparr>cl_delete = acked now, cl_event = ev\<rparr> db)"

text \<open>Storing a given row: its fields are what Store is called with and what the server adds.\<close>

definition put_acked :: "call \<Rightarrow> secret \<Rightarrow> database \<Rightarrow> database \<times> bool" where
  "put_acked ev s db =
     (case exec_stmt Applied (sql_insert_secret (s_created_at s) (s_id s) (s_token s)
             (s_ciphertext s) (s_nonce s) (s_expires_at s)) db of
        (db', Inl _) \<Rightarrow> (db', False)
      | (db', Inr _) \<Rightarrow> (recordEvent ev ''created'' 1 db', True))"

definition new_row :: "(gotime \<Rightarrow> gotime) \<Rightarrow> store_env \<Rightarrow> string \<Rightarrow> create_input \<Rightarrow> secret" where
  "new_row tz env token inp =
     \<lparr>s_id = se_uuid env, s_token = token, s_ciphertext = ci_ciphertext inp,
      s_nonce = ci_nonce inp, s_expires_at = expiry_at tz (se_clock env) (ci_expires_in inp),
      s_created_at = c_now (se_insert env)\<rparr>"

lemma find_absent:
  "k \<notin> f ` set xs \<Longrightarrow> find (\<lambda>x. f x = k) xs = None"
  "k \<notin> f ` set xs \<Longrightarrow> find (\<lambda>x. f x = k \<and> P x) xs = None"
  by (auto simp: find_None_iff)

lemma find_filter_unique:
  assumes "distinct (map f xs)"
  shows "find (\<lambda>x. f x = k \<and> P x) xs =
    (case find (\<lambda>x. f x = k) xs of Some x \<Rightarrow> if P x then Some x else None | None \<Rightarrow> None)"
  using assms by (induction xs) (auto simp: find_absent)

lemma find_remove_unique:
  assumes "distinct (map f xs)"
  shows "find (\<lambda>x. f x = k') (filter (\<lambda>x. f x = k \<longrightarrow> \<not> P x) xs) =
    (if k' = k then (case find (\<lambda>x. f x = k) xs of
        Some x \<Rightarrow> if P x then None else Some x | None \<Rightarrow> None)
     else find (\<lambda>x. f x = k') xs)"
  using assms
proof (induction xs)
  case (Cons x xs)
  have "find (\<lambda>y. f y = f x) (filter Q xs) = None" for Q
    using Cons.prems by (intro find_absent) auto
  with Cons show ?case by (auto simp: find_absent)
qed simp

lemma find_filter_keep: "find P (filter Q xs) = find (\<lambda>x. Q x \<and> P x) xs"
  by (induction xs) auto

lemma fetch_acked:
  "fetchAndDelete \<lparr>fe_delete = acked now, fe_event = ev\<rparr> token db =
    (let hit = (\<lambda>s. s_token s = token \<and> unexpired now s);
         db1 = db\<lparr>secrets := filter (\<lambda>s. \<not> hit s) (secrets db)\<rparr>
     in case find hit (secrets db) of
          None \<Rightarrow> (db1, Inl ErrNotFound)
        | Some s \<Rightarrow> (recordEvent ev ''retrieved'' 1 db1, Inr s))"
  by (simp add: fetchAndDelete_def exec_stmt_Applied acked_def sql_take_secret_def Let_def
      split: option.splits)

lemma take_acked_secrets:
  "secrets (fst (take_acked ev now token db)) =
    filter (\<lambda>s. \<not> (s_token s = token \<and> unexpired now s)) (secrets db)"
  by (simp add: take_acked_def fetch_acked Let_def frame_simps split: option.splits)

lemma take_acked_result:
  "snd (take_acked ev now token db) = find (\<lambda>s. s_token s = token \<and> unexpired now s) (secrets db)"
  by (simp add: take_acked_def fetch_acked Let_def split: option.splits)

lemma sweep_acked_secrets:
  "secrets (sweep_acked ev now db) = filter (\<lambda>s. \<not> past_expiry now s) (secrets db)"
  by (simp add: sweep_acked_def cleanupExpired_def exec_stmt_Applied acked_def
      sql_delete_expired_def frame_simps)

lemma db_ok_tokens: "db_ok db \<Longrightarrow> distinct (map s_token (secrets db))"
  by (simp add: db_ok_def)

lemma find_unique_Some:
  "distinct (map f xs) \<Longrightarrow> find (\<lambda>x. f x = k) xs = Some y \<longleftrightarrow> y \<in> set xs \<and> f y = k"
  by (induction xs) auto

lemma vault_Some: "db_ok db \<Longrightarrow> vault db token = Some s \<longleftrightarrow> s \<in> set (secrets db) \<and> s_token s = token"
  by (simp add: vault_def find_unique_Some db_ok_tokens)

lemma take_acked_ok: "db_ok db \<Longrightarrow> db_ok (fst (take_acked ev now token db))"
  using fetchAndDelete_ok [of db "\<lparr>fe_delete = acked now, fe_event = ev\<rparr>" token]
  by (auto simp: take_acked_def split: prod.splits sum.splits)

lemma sweep_acked_ok: "db_ok db \<Longrightarrow> db_ok (sweep_acked ev now db)"
  by (simp add: sweep_acked_def cleanupExpired_ok)

interpretation repo: one_time_store db_ok vault unexpired "take_acked ev" "sweep_acked ev" for ev
proof
  fix db :: database and now now' :: gotime and k s
  show "now \<le> now' \<Longrightarrow> unexpired now' s \<Longrightarrow> unexpired now s"
    by (rule unexpired_mono)
  assume ok: "db_ok db"
  show "db_ok (fst (take_acked ev now k db))" "db_ok (sweep_acked ev now db)"
    using ok by (simp_all add: take_acked_ok sweep_acked_ok)
  show "vault (fst (take_acked ev now k db)) =
    (case vault db k of
       Some e \<Rightarrow> if unexpired now e then (vault db)(k := None) else vault db
     | None \<Rightarrow> vault db)"
    using ok
    by (intro ext)
      (simp add: vault_def take_acked_secrets find_remove_unique db_ok_tokens split: option.splits)
  show "snd (take_acked ev now k db) =
    (case vault db k of Some e \<Rightarrow> if unexpired now e then Some e else None | None \<Rightarrow> None)"
    using ok by (simp add: vault_def take_acked_result find_filter_unique db_ok_tokens)
  show "vault db k = Some s \<Longrightarrow> unexpired now s \<Longrightarrow> vault (sweep_acked ev now db) k = Some s"
    using ok sweep_acked_ok [OF ok, of ev now]
    by (auto simp: vault_Some sweep_acked_secrets dest: unexpired_not_past)
  show "vault (sweep_acked ev now db) k = Some s \<Longrightarrow> vault db k = Some s"
    using ok sweep_acked_ok [OF ok, of ev now]
    by (auto simp: vault_Some sweep_acked_secrets)
qed

lemma put_acked_eq:
  "put_acked ev s db =
    (if s_id s \<in> s_id ` set (secrets db) \<or> s_token s \<in> s_token ` set (secrets db)
     then (db, False)
     else (recordEvent ev ''created'' 1 (db\<lparr>secrets := secrets db @ [s]\<rparr>), True))"
  by (cases s) (simp add: put_acked_def exec_stmt_Applied sql_insert_secret_def)

text \<open>Store, when its INSERT is acknowledged, is \<open>put_acked\<close> of the new row.\<close>

lemma store_is_put:
  "c_out (se_insert env) = Applied \<Longrightarrow>
    store tz env token inp db =
      (case put_acked (se_event env) (new_row tz env token inp) db of
         (db', ok) \<Rightarrow>
           (db', if ok then None else Some (Wrapped ''insert secret'' (ErrDb UniqueViolation))))"
  by (auto simp: store_def new_row_def put_acked_eq exec_stmt_Applied sql_insert_secret_def)

lemma put_acked_ok: "db_ok db \<Longrightarrow> db_ok (fst (put_acked ev s db))"
  by (auto simp: put_acked_eq intro!: recordEvent_ok) (auto simp: db_ok_def)

lemma vault_append:
  "s_token s \<notin> s_token ` set (secrets db) \<Longrightarrow>
    vault (recordEvent ev ty n (db\<lparr>secrets := secrets db @ [s]\<rparr>)) = (vault db)(s_token s := Some s)"
  by (rule ext) (auto simp: vault_def frame_simps find_append_case find_absent split: option.splits)

interpretation repo_put:
  one_time_store_put db_ok vault unexpired "take_acked ev" "sweep_acked ev" s_token "put_acked ev" for ev
proof
  fix db :: database and s
  assume ok: "db_ok db"
  show "db_ok (fst (put_acked ev s db))"
    using ok by (rule put_acked_ok)
  show "snd (put_acked ev s db) \<Longrightarrow> vault (fst (put_acked ev s db)) = (vault db)(s_token s := Some s)"
    by (auto simp: put_acked_eq vault_append split: if_splits)
  show "snd (put_acked ev s db) \<Longrightarrow> vault db (s_token s) = None"
    by (auto simp: put_acked_eq vault_def find_absent split: if_splits)
  show "\<not> snd (put_acked ev s db) \<Longrightarrow> vault (fst (put_acked ev s db)) = vault db"
    by (auto simp: put_acked_eq split: if_splits)
qed

end
