(* ===== verification/Stats.thy ===== *)
theory Stats
  imports Vault
begin

text \<open>
  The book-keeping in secret_events, and the properties of the repository layer: each
  secret is handed out at most once in any interleaving, what is handed out was put in,
  the methods refine the abstract store, clean-up is invisible to clients, and the event
  totals balance the rows.
\<close>

section \<open>Sequences of repository calls\<close>

datatype repo_op =
    OpStore store_env string create_input
  | OpFetch fetch_env string
  | OpCleanup cleanup_env

fun run_op :: "(gotime \<Rightarrow> gotime) \<Rightarrow> repo_op \<Rightarrow> database \<Rightarrow> database" where
  "run_op tz (OpStore env token inp) db = fst (store tz env token inp db)"
| "run_op tz (OpFetch env token) db = fst (fetchAndDelete env token db)"
| "run_op tz (OpCleanup env) db = fst (cleanupExpired env db)"

fun run_ops :: "(gotime \<Rightarrow> gotime) \<Rightarrow> repo_op list \<Rightarrow> database \<Rightarrow> database" where
  "run_ops tz [] db = db"
| "run_ops tz (x # xs) db = run_ops tz xs (run_op tz x db)"

text \<open>
  No acknowledgement is lost and every event is recorded; the main statement of a call may
  still be rejected.
\<close>

definition heard :: "call \<Rightarrow> bool" where
  "heard c \<longleftrightarrow> (\<forall>e. c_out c \<noteq> AckLost e)"

fun accounted :: "repo_op \<Rightarrow> bool" where
  "accounted (OpStore env _ _) \<longleftrightarrow> heard (se_insert env) \<and> c_out (se_event env) = Applied"
| "accounted (OpFetch env _) \<longleftrightarrow> heard (fe_delete env) \<and> c_out (fe_event env) = Applied"
| "accounted (OpCleanup env) \<longleftrightarrow> heard (cl_delete env) \<and> c_out (cl_event env) = Applied"

definition total :: "string \<Rightarrow> database \<Rightarrow> int" where
  "total ty db = sum_list (map ev_count (filter (\<lambda>e. ev_type e = ty) (secret_events db)))"

definition balance :: "database \<Rightarrow> int" where
  "balance db =
     total ''created'' db - total ''retrieved'' db - total ''expired'' db - int (length (secrets db))"

lemma run_ops_ok: "db_ok db \<Longrightarrow> db_ok (run_ops tz xs db)"
proof (induction xs arbitrary: db)
  case (Cons x xs)
  have "db_ok (run_op tz x db)"
    using Cons.prems by (cases x) (simp_all add: store_ok fetchAndDelete_ok cleanupExpired_ok)
  then show ?case by (simp add: Cons.IH)
qed simp

lemma total_record:
  "c_out c = Applied \<Longrightarrow> ty \<in> set event_types \<Longrightarrow>
    total ty' (recordEvent c ty n db) = total ty' db + (if ty = ty' then n else 0)"
  by (simp add: recordEvent_def exec_stmt_Applied sql_insert_event_def total_def)

lemma total_secrets [simp]: "total ty (db\<lparr>secrets := xs\<rparr>) = total ty db"
  by (simp add: total_def)

lemma event_type_simps [simp]:
  "''created'' \<in> set event_types" "''retrieved'' \<in> set event_types" "''expired'' \<in> set event_types"
  by (simp_all add: event_types_def)

lemma balance_store:
  assumes "accounted (OpStore env token inp)"
  shows "balance (fst (store tz env token inp db)) = balance db"
proof (cases "c_out (se_insert env)")
  case Applied
  with assms show ?thesis
    by (simp add: store_is_put put_acked_eq balance_def total_record frame_simps)
next
  case (Rejected e)
  then show ?thesis by (simp add: store_def exec_stmt_def)
next
  case (AckLost e)
  with assms show ?thesis by (simp add: heard_def)
qed

lemma remove_one_length:
  assumes "distinct (map f xs)" "find (\<lambda>x. f x = k \<and> P x) xs = Some y"
  shows "length xs = Suc (length (filter (\<lambda>x. f x = k \<longrightarrow> \<not> P x) xs))"
proof -
  have "y \<in> set xs" "f y = k" "P y"
    using assms(2) by (auto simp: find_Some_iff)
  then have "length (filter (\<lambda>x. f x = k \<and> P x) xs) \<noteq> 0"
    by (auto simp: filter_empty_conv)
  moreover have "length (filter (\<lambda>x. f x = k \<and> P x) xs) \<le> length (filter (\<lambda>x. f x = k) xs)"
    by (rule length_filter_sub_le) simp
  ultimately have "length (filter (\<lambda>x. f x = k \<and> P x) xs) = 1"
    using distinct_map_filter_le_one [OF assms(1), of k] by linarith
  then show ?thesis
    using length_filter_partition [of "\<lambda>x. f x = k \<and> P x" xs] by simp
qed

lemma remove_none_length:
  "find (\<lambda>x. f x = k \<and> P x) xs = None \<Longrightarrow> filter (\<lambda>x. f x = k \<longrightarrow> \<not> P x) xs = xs"
  by (auto simp: find_None_iff filter_id_conv)

lemma balance_fetch:
  assumes "accounted (OpFetch env token)" "db_ok db"
  shows "balance (fst (fetchAndDelete env token db)) = balance db"
proof (cases "c_out (fe_delete env)")
  case Applied
  then have env: "env = \<lparr>fe_delete = acked (c_now (fe_delete env)), fe_event = fe_event env\<rparr>"
    by (simp add: acked_def)
  show ?thesis
    using assms remove_one_length [OF db_ok_tokens [OF assms(2)]]
      remove_none_length [of s_token token "unexpired (c_now (fe_delete env))" "secrets db"]
    by (subst env) (auto simp: fetch_acked Let_def balance_def total_record frame_simps
        split: option.splits)
next
  case (Rejected e)
  then show ?thesis by (simp add: fetchAndDelete_def exec_stmt_def)
next
  case (AckLost e)
  with assms show ?thesis by (simp add: heard_def)
qed

lemma balance_cleanup:
  assumes "accounted (OpCleanup env)"
  shows "balance (fst (cleanupExpired env db)) = balance db"
proof (cases "c_out (cl_delete env)")
  case Applied
  define now where "now = c_now (cl_delete env)"
  have "length (filter (past_expiry now) (secrets db)) = 0 \<Longrightarrow>
      filter (\<lambda>s. \<not> past_expiry now s) (secrets db) = secrets db"
    by (auto simp: filter_empty_conv filter_id_conv)
  with Applied assms length_filter_partition [of "past_expiry now" "secrets db"] show ?thesis
    by (auto simp: cleanupExpired_def exec_stmt_Applied sql_delete_expired_def balance_def
        total_record frame_simps now_def [symmetric])
next
  case (Rejected e)
  then show ?thesis by (simp add: cleanupExpired_def exec_stmt_def)
next
  case (AckLost e)
  with assms show ?thesis by (simp add: heard_def)
qed

lemma balance_run:
  "list_all accounted xs \<Longrightarrow> db_ok db \<Longrightarrow> balance (run_ops tz xs db) = balance db"
proof (induction xs arbitrary: db)
  case (Cons x xs)
  have "balance (run_op tz x db) = balance db"
    using Cons.prems by (cases x) (simp_all add: balance_store balance_fetch balance_cleanup)
  moreover have "db_ok (run_op tz x db)"
    using run_ops_ok [of db tz "[x]"] Cons.prems by simp
  ultimately show ?case using Cons by simp
qed simp

section \<open>What one call does\<close>

lemma fetch_result:
  "snd (fetchAndDelete env token db) =
    (case c_out (fe_delete env) of
       Applied \<Rightarrow>
         (case find (\<lambda>s. s_token s = token \<and> unexpired (c_now (fe_delete env)) s) (secrets db) of
            None \<Rightarrow> Inl ErrNotFound
          | Some s \<Rightarrow> Inr s)
     | Rejected e \<Rightarrow> Inl (Wrapped ''fetch and delete secret'' (ErrDb e))
     | AckLost e \<Rightarrow> Inl (Wrapped ''fetch and delete secret'' (ErrDb e)))"
  by (simp add: fetchAndDelete_def exec_stmt_def sql_take_secret_def Let_def
      split: outcome.splits option.splits)

lemma fetch_secrets:
  "secrets (fst (fetchAndDelete env token db)) =
    (case c_out (fe_delete env) of
       Rejected e \<Rightarrow> secrets db
     | _ \<Rightarrow> filter (\<lambda>s. s_token s = token \<longrightarrow> \<not> unexpired (c_now (fe_delete env)) s) (secrets db))"
  by (simp add: fetchAndDelete_def exec_stmt_def sql_take_secret_def Let_def frame_simps
      split: outcome.splits option.splits)

lemma vault_cong: "secrets db = secrets db' \<Longrightarrow> vault db = vault db'"
  by (rule ext) (simp add: vault_def)

lemma vault_removed:
  assumes "db_ok db"
    and "secrets db' = filter (\<lambda>s. s_token s = token \<longrightarrow> \<not> unexpired now s) (secrets db)"
  shows "vault db' = (case vault db token of
      Some s \<Rightarrow> if unexpired now s then (vault db)(token := None) else vault db
    | None \<Rightarrow> vault db)"
  using assms
  by (intro ext) (simp add: vault_def find_remove_unique db_ok_tokens split: option.splits)

lemma cleanup_secrets:
  "secrets (fst (cleanupExpired env db)) \<in>
    {secrets db, filter (\<lambda>s. \<not> past_expiry (c_now (cl_delete env)) s) (secrets db)}"
  by (auto simp: cleanupExpired_def exec_stmt_def sql_delete_expired_def frame_simps
      split: outcome.splits)

section \<open>Properties\<close>

definition demo_secret :: secret where
  "demo_secret = \<lparr>s_id = ''u1'', s_token = ''t1'', s_ciphertext = [1, 2], s_nonce = [3],
     s_expires_at = Some 100, s_created_at = 0\<rparr>"

definition demo_db :: database where
  "demo_db = empty_db\<lparr>secrets := [demo_secret]\<rparr>"

lemma demo_db_ok: "db_ok demo_db"
  by (simp add: demo_db_def demo_secret_def empty_db_def db_ok_def)

lemma demo_insert: "db_step empty_db (LInsert ''t1'' [1, 2] [3]) demo_db"
  using step_insert [of empty_db "''t1''" "[1, 2]" "[3]" Applied 0 "''u1''" "Some 100"]
  by (simp add: exec_stmt_Applied sql_insert_secret_def demo_db_def demo_secret_def empty_db_def)

lemma demo_take: "db_step demo_db (LTake ''t1'' (Some demo_secret)) empty_db"
  using step_take [of demo_db "''t1''" Applied 50]
  by (simp add: exec_stmt_Applied sql_take_secret_def demo_db_def demo_secret_def empty_db_def
      unexpired_def taken_def)

lemma demo_run:
  "db_run empty_db [LInsert ''t1'' [1, 2] [3], LTake ''t1'' (Some demo_secret)] empty_db"
  using demo_insert demo_take by (rule db_run_two)

text \<open>C2: One-time access under any interleaving. In every sequence of statements that
  concurrent requests and the clean-up worker can produce, whatever the outcomes of the
  statements, a token is delivered at most as often as it was inserted; and a delivery uses
  its row up, since the rows still live are counted on the same side.\<close>

theorem deliveries_bounded:
  assumes "db_run db ls db'"
  shows "deliveries token ls + live token db' \<le> live token db + inserts token ls"
  by (rule run_counts [OF assms])

theorem deliveries_bounded_witness:
  "deliveries ''t1'' [LInsert ''t1'' [1, 2] [3], LTake ''t1'' (Some demo_secret)] = 1 \<and>
   deliveries ''t1'' [LInsert ''t1'' [1, 2] [3], LTake ''t1'' (Some demo_secret)] +
     live ''t1'' empty_db \<le>
   live ''t1'' empty_db + inserts ''t1'' [LInsert ''t1'' [1, 2] [3], LTake ''t1'' (Some demo_secret)]"
  using deliveries_bounded [OF demo_run, of "''t1''"] by simp

text \<open>C9: Integrity of deliveries. What any execution hands out for a token carries that
  token and was either in the table at the start or inserted under that token with exactly
  this ciphertext and nonce during the execution.\<close>

theorem delivered_was_stored:
  assumes "db_run db ls db'" "LTake token (Some s) \<in> set ls"
  shows "s_token s = token \<and>
    (s \<in> set (secrets db) \<or> LInsert token (s_ciphertext s) (s_nonce s) \<in> set ls)"
  by (rule run_delivery_source [OF assms])

theorem delivered_was_stored_witness:
  "s_token demo_secret = ''t1'' \<and>
    (demo_secret \<in> set (secrets empty_db) \<or>
     LInsert ''t1'' (s_ciphertext demo_secret) (s_nonce demo_secret)
       \<in> set [LInsert ''t1'' [1, 2] [3], LTake ''t1'' (Some demo_secret)])"
  by (rule delivered_was_stored [OF demo_run]) simp

text \<open>C6: FetchAndDelete on every branch, against the abstract map from tokens to secrets.
  A rejected statement changes nothing. An acknowledged one returns the live secret and
  removes it, or reports not-found and leaves the map alone. When only the acknowledgement
  is lost, the caller gets an error and the live secret is gone all the same.\<close>

theorem fetch_refines_vault:
  assumes "db_ok db"
  shows "case c_out (fe_delete env) of
      Rejected e \<Rightarrow>
        fetchAndDelete env token db =
          (db, Inl (Wrapped ''fetch and delete secret'' (ErrDb e)))
    | Applied \<Rightarrow>
        (case vault db token of
           Some s \<Rightarrow>
             if unexpired (c_now (fe_delete env)) s
             then snd (fetchAndDelete env token db) = Inr s \<and>
                  vault (fst (fetchAndDelete env token db)) = (vault db)(token := None)
             else snd (fetchAndDelete env token db) = Inl ErrNotFound \<and>
                  vault (fst (fetchAndDelete env token db)) = vault db
         | None \<Rightarrow> snd (fetchAndDelete env token db) = Inl ErrNotFound \<and>
                  vault (fst (fetchAndDelete env token db)) = vault db)
    | AckLost e \<Rightarrow>
        snd (fetchAndDelete env token db) =
          Inl (Wrapped ''fetch and delete secret'' (ErrDb e)) \<and>
        vault (fst (fetchAndDelete env token db)) =
          (case vault db token of
             Some s \<Rightarrow> if unexpired (c_now (fe_delete env)) s then (vault db)(token := None) else vault db
           | None \<Rightarrow> vault db)"
proof (cases "c_out (fe_delete env)")
  case Applied
  then have "vault (fst (fetchAndDelete env token db)) = (case vault db token of
      Some s \<Rightarrow> if unexpired (c_now (fe_delete env)) s then (vault db)(token := None) else vault db
    | None \<Rightarrow> vault db)"
    by (intro vault_removed [OF assms(1)]) (simp add: fetch_secrets)
  with Applied assms(1) show ?thesis
    by (auto simp: fetch_result find_filter_unique db_ok_tokens vault_def
        split: option.splits)
next
  case (Rejected e)
  then show ?thesis by (simp add: fetchAndDelete_def exec_stmt_def)
next
  case (AckLost e)
  then show ?thesis
    using vault_removed [OF assms(1), of "fst (fetchAndDelete env token db)" token "c_now (fe_delete env)"]
    by (simp add: fetch_secrets fetch_result)
qed

theorem fetch_refines_vault_witness:
  "snd (fetchAndDelete \<lparr>fe_delete = acked 50, fe_event = acked 50\<rparr> ''t1'' demo_db) = Inr demo_secret \<and>
   snd (fetchAndDelete \<lparr>fe_delete = acked 100, fe_event = acked 50\<rparr> ''t1'' demo_db) = Inl ErrNotFound"
  using fetch_refines_vault [OF demo_db_ok, of "\<lparr>fe_delete = acked 50, fe_event = acked 50\<rparr>" "''t1''"]
    fetch_refines_vault [OF demo_db_ok, of "\<lparr>fe_delete = acked 100, fe_event = acked 50\<rparr>" "''t1''"]
  by (simp add: acked_def demo_db_def vault_def demo_secret_def unexpired_def)

text \<open>C7: Store on every branch. An acknowledged insert adds exactly the new row under its
  token, unless the token or the UUID is taken, in which case the table is unchanged and the
  unique violation is reported, wrapped. A rejected insert changes nothing. With a lost
  acknowledgement the row is stored although the caller gets an error.\<close>

theorem store_refines_vault:
  "case c_out (se_insert env) of
      Rejected e \<Rightarrow> store tz env token inp db = (db, Some (Wrapped ''insert secret'' (ErrDb e)))
    | Applied \<Rightarrow>
        if se_uuid env \<in> s_id ` set (secrets db) \<or> token \<in> s_token ` set (secrets db)
        then store tz env token inp db =
               (db, Some (Wrapped ''insert secret'' (ErrDb UniqueViolation)))
        else snd (store tz env token inp db) = None \<and>
             vault (fst (store tz env token inp db)) = (vault db)(token := Some (new_row tz env token inp))
    | AckLost e \<Rightarrow>
        snd (store tz env token inp db) = Some (Wrapped ''insert secret'' (ErrDb e)) \<and>
        secrets (fst (store tz env token inp db)) =
          (if se_uuid env \<in> s_id ` set (secrets db) \<or> token \<in> s_token ` set (secrets db)
           then secrets db else secrets db @ [new_row tz env token inp])"
proof (cases "c_out (se_insert env)")
  case Applied
  show ?thesis
    using vault_append [of "new_row tz env token inp" db "se_event env" "''created''" 1]
    by (simp add: Applied store_is_put put_acked_eq) (simp add: new_row_def)
next
  case (Rejected e)
  then show ?thesis by (simp add: store_def exec_stmt_def)
next
  case (AckLost e)
  then show ?thesis
    by (simp add: store_def exec_stmt_def new_row_def sql_insert_secret_def)
qed

text \<open>C8: Clean-up is invisible to clients. Whatever its outcome, running CleanupExpired
  never changes what a later FetchAndDelete of any token answers, as long as the database
  clock does not run backwards between the two.\<close>

theorem cleanup_invisible:
  assumes "c_now (cl_delete cenv) \<le> c_now (fe_delete fenv)"
  shows "snd (fetchAndDelete fenv token (fst (cleanupExpired cenv db))) =
    snd (fetchAndDelete fenv token db)"
proof -
  have "unexpired (c_now (fe_delete fenv)) s \<Longrightarrow> \<not> past_expiry (c_now (cl_delete cenv)) s" for s
    using unexpired_not_past unexpired_mono [OF _ assms] by blast
  then have "(\<lambda>s. \<not> past_expiry (c_now (cl_delete cenv)) s \<and>
        s_token s = token \<and> unexpired (c_now (fe_delete fenv)) s) =
      (\<lambda>s. s_token s = token \<and> unexpired (c_now (fe_delete fenv)) s)"
    by blast
  then have f: "find (\<lambda>s. s_token s = token \<and> unexpired (c_now (fe_delete fenv)) s)
        (secrets (fst (cleanupExpired cenv db))) =
      find (\<lambda>s. s_token s = token \<and> unexpired (c_now (fe_delete fenv)) s) (secrets db)"
    using cleanup_secrets [of cenv db] by (auto simp: find_filter_keep)
  show ?thesis unfolding fetch_result f ..
qed

theorem cleanup_invisible_witness:
  "snd (fetchAndDelete \<lparr>fe_delete = acked 99, fe_event = acked 99\<rparr> ''t1''
     (fst (cleanupExpired \<lparr>cl_delete = acked 98, cl_event = acked 98\<rparr> demo_db))) =
   snd (fetchAndDelete \<lparr>fe_delete = acked 99, fe_event = acked 99\<rparr> ''t1'' demo_db)"
  by (rule cleanup_invisible) (simp add: acked_def)

text \<open>C21: The activity counters balance. Over any sequence of repository calls in which no
  acknowledgement is lost and every event insert succeeds (the main statements may be
  rejected), created minus retrieved minus expired changes exactly as the number of stored
  secrets does.\<close>

theorem events_balance_rows:
  assumes "list_all accounted ops" "db_ok db"
  shows "balance (run_ops tz ops db) = balance db"
  by (rule balance_run [OF assms])

theorem events_balance_rows_witness:
  "balance (run_ops (\<lambda>t. t)
     [OpFetch \<lparr>fe_delete = acked 50, fe_event = acked 50\<rparr> ''t1'',
      OpCleanup \<lparr>cl_delete = acked 60, cl_event = acked 60\<rparr>] demo_db) = balance demo_db"
  by (rule events_balance_rows) (simp_all add: demo_db_ok heard_def acked_def)

text \<open>C20: The requested lifetime is honoured. After an acknowledged, successful Store with
  at most 9223372036 seconds, a fetch at any database time returns exactly the stored row if
  the lifetime was zero or negative (no expiry) or the time is before clock plus lifetime,
  and reports not-found otherwise.\<close>

theorem lifetime_honoured:
  assumes "db_ok db" "c_out (se_insert env) = Applied" "snd (store tz env token inp db) = None"
    and "ci_expires_in inp \<le> 9223372036" "c_out (fe_delete fenv) = Applied"
  shows "snd (fetchAndDelete fenv token (fst (store tz env token inp db))) =
    (if ci_expires_in inp \<le> 0 \<or>
        c_now (fe_delete fenv) < tz (se_clock env + ci_expires_in inp * 1000000000)
     then Inr (new_row tz env token inp) else Inl ErrNotFound)"
proof -
  let ?row = "new_row tz env token inp" and ?now = "c_now (fe_delete fenv)"
  have "put_acked (se_event env) ?row db = (fst (store tz env token inp db), True)"
    using assms(2,3) by (simp add: store_is_put put_acked_eq split: if_splits)
  then have put: "snd (put_acked (se_event env) ?row db)"
    "fst (store tz env token inp db) = fst (put_acked (se_event env) ?row db)" by simp_all
  have tok: "s_token ?row = token" by (simp add: new_row_def)
  have "vault (fst (store tz env token inp db)) token = Some ?row"
    using repo_put.put_view [OF assms(1) put(1)] put(2) tok by simp
  moreover have "db_ok (fst (store tz env token inp db))"
    by (rule store_ok [OF assms(1)])
  moreover have "unexpired ?now ?row \<longleftrightarrow> ci_expires_in inp \<le> 0 \<or>
      ?now < tz (se_clock env + ci_expires_in inp * 1000000000)"
    using assms(4) by (auto simp: unexpired_def new_row_def expiry_at_def in_int64_def)
  ultimately show ?thesis
    using assms(5) by (simp add: fetch_result find_filter_unique db_ok_tokens vault_def)
qed

theorem lifetime_honoured_witness:
  "snd (fetchAndDelete \<lparr>fe_delete = acked 2000000000, fe_event = acked 0\<rparr> ''t2''
     (fst (store (\<lambda>t. t) \<lparr>se_clock = 0, se_uuid = ''u2'', se_insert = acked 0, se_event = acked 0\<rparr>
        ''t2'' \<lparr>ci_ciphertext = [7], ci_nonce = [8], ci_expires_in = 3\<rparr> demo_db))) =
   Inr \<lparr>s_id = ''u2'', s_token = ''t2'', s_ciphertext = [7], s_nonce = [8],
        s_expires_at = Some 3000000000, s_created_at = 0\<rparr>"
  by (subst lifetime_honoured [OF demo_db_ok])
    (simp_all add: acked_def store_def exec_stmt_Applied sql_insert_secret_def demo_db_def
      demo_secret_def empty_db_def new_row_def expiry_at_def in_int64_def)



end
