(* ===== verification/Service.thy ===== *)
theory Service
  imports Codec Stats
begin

text \<open>
  internal/service/secret_service.go: SecretService with its size limit, the token
  generator, Create and Retrieve. What crypto/rand delivers is an argument: the bytes by
  position, or \<open>None\<close> for an error.
\<close>

type_synonym rand_source = "nat \<Rightarrow> 8 word"

text \<open>hex.EncodeToString of the 16 bytes that rand.Read has filled in.\<close>

definition token_of :: "rand_source \<Rightarrow> string" where
  "token_of src = hex_encode (map src [0..<16])"

definition generateToken :: "rand_source option \<Rightarrow> err + string" where
  "generateToken rnd = (case rnd of None \<Rightarrow> Inl ErrRand | Some src \<Rightarrow> Inr (token_of src))"

lemma token_of_format: "length (token_of src) = 32" "list_all is_hex (token_of src)"
  by (simp_all add: token_of_def hex_alphabet_encode)

definition createSecret ::
    "(gotime \<Rightarrow> gotime) \<Rightarrow> int \<Rightarrow> rand_source option \<Rightarrow> store_env \<Rightarrow> create_input \<Rightarrow> database \<Rightarrow>
     database \<times> (err + string)" where
  "createSecret tz maxBytes rnd env inp db =
     (if int (length (ci_ciphertext inp)) > maxBytes then (db, Inl ErrTooLarge)
      else (case generateToken rnd of
        Inl e \<Rightarrow> (db, Inl (Wrapped ''generating token'' e))
      | Inr token \<Rightarrow>
          (case store tz env token inp db of
             (db', Some e) \<Rightarrow> (db', Inl (Wrapped ''storing secret'' e))
           | (db', None) \<Rightarrow> (db', Inr token))))"

definition retrieveSecret :: "fetch_env \<Rightarrow> string \<Rightarrow> database \<Rightarrow> database \<times> (err + secret)" where
  "retrieveSecret env token db = fetchAndDelete env token db"

section \<open>Errors keep their identity through wrapping\<close>

lemma store_error_not_sentinel:
  assumes "snd (store tz env token inp db) = Some e"
  shows "\<not> errors_is e ErrTooLarge" "\<not> errors_is e ErrNotFound"
  using assms
  by (auto simp: store_def split: prod.splits sum.splits)

lemma createSecret_db:
  "fst (createSecret tz maxBytes rnd env inp db) =
    (if int (length (ci_ciphertext inp)) > maxBytes then db
     else case rnd of None \<Rightarrow> db | Some b \<Rightarrow> fst (store tz env (token_of b) inp db))"
  by (simp add: createSecret_def generateToken_def case_prod_beta split: option.splits)

lemma createSecret_result:
  "snd (createSecret tz maxBytes rnd env inp db) =
    (if int (length (ci_ciphertext inp)) > maxBytes then Inl ErrTooLarge
     else case rnd of
       None \<Rightarrow> Inl (Wrapped ''generating token'' ErrRand)
     | Some b \<Rightarrow>
         (case snd (store tz env (token_of b) inp db) of
            Some e \<Rightarrow> Inl (Wrapped ''storing secret'' e)
          | None \<Rightarrow> Inr (token_of b)))"
  by (simp add: createSecret_def generateToken_def case_prod_beta split: option.splits)

lemma create_error_too_large:
  assumes "snd (createSecret tz maxBytes rnd env inp db) = Inl e"
  shows "errors_is e ErrTooLarge \<longleftrightarrow> int (length (ci_ciphertext inp)) > maxBytes"
  using assms store_error_not_sentinel(1) [of tz env _ inp db]
  by (auto simp: createSecret_result split: if_splits option.splits)

lemma fetch_error_not_found:
  assumes "snd (fetchAndDelete env token db) = Inl e"
  shows "errors_is e ErrNotFound \<longleftrightarrow> e = ErrNotFound"
  using assms by (auto simp: fetch_result split: outcome.splits option.splits)

section \<open>The size limit as an invariant\<close>

definition sized :: "int \<Rightarrow> database \<Rightarrow> bool" where
  "sized maxBytes db \<longleftrightarrow> list_all (\<lambda>s. int (length (s_ciphertext s)) \<le> maxBytes) (secrets db)"

lemma store_rows:
  "secrets (fst (store tz env token inp db)) \<in>
    {secrets db, secrets db @ [new_row tz env token inp]}"
  by (auto simp: store_def exec_stmt_def sql_insert_secret_def new_row_def frame_simps
      split: outcome.splits)

lemma create_sized:
  assumes "sized maxBytes db"
  shows "sized maxBytes (fst (createSecret tz maxBytes rnd env inp db))"
proof (cases "int (length (ci_ciphertext inp)) > maxBytes \<or> rnd = None")
  case True
  with assms show ?thesis by (auto simp: createSecret_db)
next
  case False
  then obtain b where b: "rnd = Some b" by auto
  have "sized maxBytes (fst (store tz env (token_of b) inp db))"
    using store_rows [of tz env "token_of b" inp db] assms False
    by (auto simp: sized_def new_row_def)
  with False b show ?thesis by (simp add: createSecret_db)
qed

lemma sized_subset: "set (secrets db') \<subseteq> set (secrets db) \<Longrightarrow> sized m db \<Longrightarrow> sized m db'"
  by (auto simp: sized_def list_all_iff)

lemma fetch_sized: "sized m db \<Longrightarrow> sized m (fst (fetchAndDelete env token db))"
  by (rule sized_subset) (auto simp: fetch_secrets split: outcome.splits)

lemma cleanup_sized: "sized m db \<Longrightarrow> sized m (fst (cleanupExpired env db))"
  by (rule sized_subset) (use cleanup_secrets [of env db] in auto)

lemma create_ok: "db_ok db \<Longrightarrow> db_ok (fst (createSecret tz maxBytes rnd env inp db))"
  by (simp add: createSecret_db store_ok split: option.splits)

section \<open>Properties\<close>

text \<open>Tokens. generateToken makes a string of 32 lower-case hex
  digits, and different random bytes make different tokens.\<close>

lemma token_format:
  "\<exists>t. generateToken (Some src) = Inr t \<and> length t = 32 \<and> list_all is_hex t \<and>
    (\<forall>src'. generateToken (Some src') = Inr t \<longrightarrow> (\<forall>i<16. src' i = src i))"
proof (intro exI conjI allI impI)
  show "generateToken (Some src) = Inr (token_of src)" by (simp add: generateToken_def)
  fix src' :: rand_source and i :: nat
  assume "generateToken (Some src') = Inr (token_of src)" "i < 16"
  hence "map src' [0..<16] = map src [0..<16]"
    unfolding generateToken_def token_of_def by (simp only: option.case sum.inject hex.enc_inj)
  with \<open>i < 16\<close> show "src' i = src i" by (simp only: map_eq_conv set_upt) simp
qed (fact token_of_format)+

end
