(* ===== verification/Handler.thy ===== *)
theory Handler
  imports Middleware Service
begin

text \<open>
  internal/handler/handler.go: the Handler with its page templates, rendering, and the four
  handlers of the public API. The template engine is an argument: \<open>parse\<close> reads the files
  of a page, \<open>exec\<close> runs the "base" template and gives what it wrote and its error. Each
  request brings its environment: random bytes, clocks, the outcome of its statements, and
  whether writing the response to the connection failed.
\<close>

section \<open>The handler and its templates\<close>

datatype page_data = IndexData int int | RetrieveData string

record 't page_handler =
  ph_maxBytes :: int
  ph_tmpls :: "string \<Rightarrow> 't option"

fun parse_pages ::
    "(string list \<Rightarrow> string + 't) \<Rightarrow> string list \<Rightarrow> (string \<Rightarrow> 't option) \<Rightarrow>
     string + (string \<Rightarrow> 't option)" where
  "parse_pages parse [] m = Inr m"
| "parse_pages parse (page # pages) m =
     (case parse [''templates/base.html'', ''templates/'' @ page @ ''.html''] of
        Inl e \<Rightarrow> Inl e
      | Inr t \<Rightarrow> parse_pages parse pages (m(page \<mapsto> t)))"

definition parseTemplates :: "(string list \<Rightarrow> string + 't) \<Rightarrow> string + (string \<Rightarrow> 't option)" where
  "parseTemplates parse = parse_pages parse [''index'', ''retrieve''] Map.empty"

definition newHandler :: "(string list \<Rightarrow> string + 't) \<Rightarrow> int \<Rightarrow> string + 't page_handler" where
  "newHandler parse maxBytes =
     (case parseTemplates parse of
        Inl e \<Rightarrow> Inl e
      | Inr tmpls \<Rightarrow> Inr \<lparr>ph_maxBytes = maxBytes, ph_tmpls = tmpls\<rparr>)"

definition render ::
    "('t \<Rightarrow> page_data \<Rightarrow> string \<times> string option) \<Rightarrow> 't page_handler \<Rightarrow> string \<Rightarrow> page_data \<Rightarrow>
     'a world_scheme \<Rightarrow> response \<Rightarrow> 'a world_scheme hres" where
  "render exec h name d w rw =
     (case ph_tmpls h name of
        None \<Rightarrow>
          Done (log_at levelError ''template not found'' [str_attr ''name'' name] w)
               (http_error ''internal error'' 500 rw)
      | Some t \<Rightarrow>
          (case exec t d of
             (out, e) \<Rightarrow>
               Done (case e of
                       None \<Rightarrow> w
                     | Some msg \<Rightarrow> log_at levelError ''render template''
                         [str_attr ''name'' name, err_attr ''err'' msg] w)
                    (write_body out
                      (set_header ''Content-Type'' ''text/html; charset=utf-8'' rw))))"

section \<open>Handlers\<close>

definition serveIndex ::
    "('t \<Rightarrow> page_data \<Rightarrow> string \<times> string option) \<Rightarrow> 't page_handler \<Rightarrow> 'a world_scheme handler" where
  "serveIndex exec h = (\<lambda>r w rw.
     if rq_path r \<noteq> ''/'' then Done w (not_found rw)
     else render exec h ''index'' (IndexData (ph_maxBytes h) (quot64 (ph_maxBytes h) (1024 * 1024))) w rw)"

definition servePage ::
    "('t \<Rightarrow> page_data \<Rightarrow> string \<times> string option) \<Rightarrow> 't page_handler \<Rightarrow> 'a world_scheme handler" where
  "servePage exec h = (\<lambda>r w rw. render exec h ''retrieve'' (RetrieveData (rq_token r)) w rw)"

text \<open>\<open>h.maxBytes*4/3 + 16384\<close> in int64.\<close>

definition bodyLimit :: "int \<Rightarrow> int" where
  "bodyLimit maxBytes = wrap64 (quot64 (wrap64 (maxBytes * 4)) 3 + 16384)"

text \<open>
  Error() of the errors of the service; \<open>extText\<close> gives the messages of the errors that
  come from outside, of the driver and of crypto/rand.
\<close>

fun errText :: "(err \<Rightarrow> string) \<Rightarrow> err \<Rightarrow> string" where
  "errText extText ErrNotFound = ''secret not found or expired''"
| "errText extText ErrTooLarge = ''secret exceeds maximum allowed size''"
| "errText extText (ErrDb e) = extText (ErrDb e)"
| "errText extText ErrRand = extText ErrRand"
| "errText extText (Wrapped m e) = m @ '': '' @ errText extText e"

text \<open>Sending a JSON value: the error is the connection's.\<close>

definition send_json ::
    "string \<Rightarrow> string option \<Rightarrow> string \<Rightarrow> 'a world_scheme \<Rightarrow> response \<Rightarrow> 'a world_scheme hres" where
  "send_json msg werr json w rw =
     Done (case werr of
             None \<Rightarrow> w
           | Some e \<Rightarrow> log_at levelError msg [err_attr ''err'' e] w)
          (write_body json (set_header ''Content-Type'' ''application/json'' rw))"

record create_env =
  ce_rand :: "rand_source option"
  ce_store :: store_env
  ce_write :: "string option"

definition createHandler ::
    "unicode_tables \<Rightarrow> (gotime \<Rightarrow> gotime) \<Rightarrow> (err \<Rightarrow> string) \<Rightarrow> int \<Rightarrow> create_env \<Rightarrow>
     'a world_scheme handler" where
  "createHandler uc tz extText maxBytes env = (\<lambda>r w rw.
     case decode_body uc (bodyLimit maxBytes) (rq_body r) of
       None \<Rightarrow> Done w (http_error ''invalid request body'' 400 rw)
     | Some body \<Rightarrow>
         (case b64_decode (cb_ciphertext body) of
            None \<Rightarrow> Done w (http_error ''invalid ciphertext encoding'' 400 rw)
          | Some ciphertext \<Rightarrow>
              (case b64_decode (cb_nonce body) of
                 None \<Rightarrow> Done w (http_error ''invalid nonce encoding'' 400 rw)
               | Some nonce \<Rightarrow>
                   (case createSecret tz maxBytes (ce_rand env) (ce_store env)
                           \<lparr>ci_ciphertext = ciphertext, ci_nonce = nonce,
                            ci_expires_in = cb_expires_in body\<rparr> (w_db w) of
                      (db', Inl e) \<Rightarrow>
                        if errors_is e ErrTooLarge then
                          Done (w\<lparr>w_db := db'\<rparr>) (http_error ''secret too large'' 413 rw)
                        else
                          Done (log_at levelError ''create secret''
                                  [err_attr ''err'' (errText extText e)] (w\<lparr>w_db := db'\<rparr>))
                               (http_error ''internal error'' 500 rw)
                    | (db', Inr token) \<Rightarrow>
                        send_json ''encode create response'' (ce_write env)
                          (token_response token) (w\<lparr>w_db := db'\<rparr>) rw))))"

record reveal_env =
  re_fetch :: fetch_env
  re_write :: "string option"

definition revealHandler ::
    "(err \<Rightarrow> string) \<Rightarrow> reveal_env \<Rightarrow> 'a world_scheme handler" where
  "revealHandler extText env = (\<lambda>r w rw.
     case retrieveSecret (re_fetch env) (rq_token r) (w_db w) of
       (db', Inl e) \<Rightarrow>
         if errors_is e ErrNotFound then
           Done (w\<lparr>w_db := db'\<rparr>) (http_error ''not found'' 404 rw)
         else
           Done (log_at levelError ''reveal secret''
                   [err_attr ''err'' (errText extText e)] (w\<lparr>w_db := db'\<rparr>))
                (http_error ''internal error'' 500 rw)
     | (db', Inr secret) \<Rightarrow>
         send_json ''encode reveal response'' (re_write env)
           (payload_response \<lparr>sp_ciphertext = b64_encode (s_ciphertext secret),
                              sp_nonce = b64_encode (s_nonce secret)\<rparr>)
           (w\<lparr>w_db := db'\<rparr>) rw)"

section \<open>Headers and frames\<close>

lemma keeps_render: "guarded security_headers rw \<Longrightarrow>
  guarded security_headers (hres_response (render exec h name d w rw))"
  by (auto simp: render_def split: option.splits prod.splits intro!: guarded_write_body)

lemma keeps_send_json: "guarded security_headers rw \<Longrightarrow>
  guarded security_headers (hres_response (send_json m e j w rw))"
  by (auto simp: send_json_def intro!: guarded_write_body)

lemma keeps_serveIndex: "keeps_headers (serveIndex exec h)"
  by (auto simp: keeps_headers_def serveIndex_def not_found_def keeps_render)

lemma keeps_servePage: "keeps_headers (servePage exec h)"
  by (auto simp: keeps_headers_def servePage_def keeps_render)

lemma keeps_createHandler: "keeps_headers (createHandler uc tz extText maxBytes env)"
  by (auto simp: keeps_headers_def createHandler_def keeps_send_json
      split: option.splits prod.splits sum.splits)

lemma keeps_revealHandler: "keeps_headers (revealHandler extText env)"
  by (auto simp: keeps_headers_def revealHandler_def keeps_send_json
      split: prod.splits sum.splits)

lemma render_db [frame_simps]: "w_db (hres_world (render exec h name d w rw)) = w_db w"
  by (auto simp: render_def split: option.splits prod.splits)

lemma status_send_json [status_simps]:
  "rs_status rw = None \<Longrightarrow> status_of (hres_response (send_json m e j w rw)) = 200"
  by (simp add: send_json_def status_of_def finish_def)

lemma send_json_db [frame_simps]: "w_db (hres_world (send_json m e j w rw)) = w_db w"
  by (simp add: send_json_def split: option.splits)

lemma body_send_json [simp]: "rs_body (hres_response (send_json m e j w rw)) = rs_body rw @ j"
  by (simp add: send_json_def)

section \<open>The body limit\<close>

lemma bodyLimit_value:
  assumes "0 \<le> maxBytes" "maxBytes < 2 ^ 61"
  shows "bodyLimit maxBytes = maxBytes * 4 div 3 + 16384"
proof -
  have "wrap64 (maxBytes * 4) = maxBytes * 4" using assms by (intro wrap64_id) (simp add: in_int64_def)
  moreover have "wrap64 (maxBytes * 4 div 3 + 16384) = maxBytes * 4 div 3 + 16384"
    using assms by (intro wrap64_id) (simp add: in_int64_def)
  ultimately show ?thesis using assms by (simp add: bodyLimit_def)
qed

lemma length_client_body:
  "length (client_body ct nonce n) =
    4 * ((length ct + 2) div 3) + 4 * ((length nonce + 2) div 3) + length (itoa n) + 42"
  by (simp add: client_body_def json_quote_safe [OF safe_names(1)] json_quote_safe [OF safe_names(2)]
      json_quote_safe [OF safe_names(3)] json_quote_safe [OF safe_b64] length_b64_encode)

lemma client_body_fits:
  assumes "int (length ct) \<le> maxBytes" "maxBytes < 2 ^ 61" "length nonce \<le> 12000" "in_int64 n"
  shows "int (length (client_body ct nonce n)) \<le> bodyLimit maxBytes"
proof -
  have "int (4 * ((length ct + 2) div 3)) \<le> maxBytes * 4 div 3 + 4" using assms(1) by linarith
  moreover have "4 * ((length nonce + 2) div 3) \<le> 16004" using assms(3) by linarith
  ultimately show ?thesis
    using length_itoa [OF assms(4)] assms(1,2)
    by (simp add: length_client_body bodyLimit_value)
qed

lemma create_of_client_body:
  assumes "int (length (client_body ct nonce n)) \<le> bodyLimit maxBytes" "in_int64 n"
    and "rq_body r = client_body ct nonce n" "int (length ct) \<le> maxBytes"
    and "rs_status rw = None" "ce_rand env = Some bs"
    and inp_def: "inp = \<lparr>ci_ciphertext = ct, ci_nonce = nonce, ci_expires_in = n\<rparr>"
  shows "w_db (hres_world (createHandler uc tz extText maxBytes env r w rw)) =
      fst (store tz (ce_store env) (token_of bs) inp (w_db w)) \<and>
    status_of (hres_response (createHandler uc tz extText maxBytes env r w rw)) =
      (if snd (store tz (ce_store env) (token_of bs) inp (w_db w)) = None then 200 else 500)"
  using decode_client_body [OF assms(1,2), of uc] assms(3-6)
    store_error_not_sentinel(1) [of tz "ce_store env" "token_of bs" inp "w_db w"]
  by (auto simp: createHandler_def createSecret_def generateToken_def b64.dec_enc inp_def
      status_simps frame_simps split: prod.splits option.splits)

section \<open>Secrets that nobody touches\<close>

fun spares :: "secret \<Rightarrow> repo_op \<Rightarrow> bool" where
  "spares s (OpStore env token inp) = True"
| "spares s (OpFetch env token) \<longleftrightarrow> token \<noteq> s_token s"
| "spares s (OpCleanup env) \<longleftrightarrow> \<not> past_expiry (c_now (cl_delete env)) s"

lemma run_op_keeps: "spares s x \<Longrightarrow> s \<in> set (secrets db) \<Longrightarrow> s \<in> set (secrets (run_op tz x db))"
proof (cases x)
  case (OpStore env token inp)
  thus "s \<in> set (secrets db) \<Longrightarrow> ?thesis" using store_rows [of tz env token inp db] by auto
next
  case (OpCleanup env)
  thus "spares s x \<Longrightarrow> s \<in> set (secrets db) \<Longrightarrow> ?thesis" using cleanup_secrets [of env db] by auto
qed (simp add: fetch_secrets split: outcome.splits)

lemma run_ops_keep:
  "list_all (spares s) xs \<Longrightarrow> s \<in> set (secrets db) \<Longrightarrow> s \<in> set (secrets (run_ops tz xs db))"
  by (induction xs arbitrary: db) (auto simp: run_op_keeps)

fun stores_other :: "string \<Rightarrow> repo_op \<Rightarrow> bool" where
  "stores_other token (OpStore env t inp) \<longleftrightarrow> t \<noteq> token"
| "stores_other token x = True"

lemma run_ops_absent:
  "list_all (stores_other token) xs \<Longrightarrow> token \<notin> s_token ` set (secrets db) \<Longrightarrow>
   token \<notin> s_token ` set (secrets (run_ops tz xs db))"
proof (induction xs arbitrary: db)
  case (Cons x xs)
  have "token \<notin> s_token ` set (secrets (run_op tz x db))"
  proof (cases x)
    case (OpStore env t inp)
    thus ?thesis using store_rows [of tz env t inp db] Cons.prems by (auto simp: new_row_def)
  next
    case (OpCleanup env)
    thus ?thesis using cleanup_secrets [of env db] Cons.prems by auto
  next
    case (OpFetch env t)
    thus ?thesis using Cons.prems by (auto simp: fetch_secrets split: outcome.splits)
  qed
  with Cons show ?case by simp
qed simp

lemma fetch_present:
  assumes "db_ok db" "s \<in> set (secrets db)" "unexpired (c_now (fe_delete env)) s"
    and "c_out (fe_delete env) = Applied"
  shows "snd (fetchAndDelete env (s_token s) db) = Inr s"
    and "s_token s \<notin> s_token ` set (secrets (fst (fetchAndDelete env (s_token s) db)))"
proof -
  have v: "vault db (s_token s) = Some s" using assms(1,2) by (simp add: vault_Some)
  with assms show "snd (fetchAndDelete env (s_token s) db) = Inr s"
    by (simp add: fetch_result find_filter_unique db_ok_tokens vault_def)
  have "t = s" if "t \<in> set (secrets db)" "s_token t = s_token s" for t
    using v vault_Some [OF assms(1), of "s_token s" t] that by simp
  with assms(3,4) show "s_token s \<notin> s_token ` set (secrets (fst (fetchAndDelete env (s_token s) db)))"
    by (auto simp: fetch_secrets)
qed

lemma fetch_absent:
  "token \<notin> s_token ` set (secrets db) \<Longrightarrow> c_out (fe_delete env) = Applied \<Longrightarrow>
   snd (fetchAndDelete env token db) = Inl ErrNotFound"
  by (simp add: fetch_result find_absent)

lemma create_world:
  "w_db (hres_world (createHandler uc tz extText maxBytes env r w rw)) = w_db w \<or>
   (\<exists>inp. w_db (hres_world (createHandler uc tz extText maxBytes env r w rw)) =
     fst (createSecret tz maxBytes (ce_rand env) (ce_store env) inp (w_db w)))"
  by (auto simp: createHandler_def frame_simps split: option.splits prod.splits sum.splits)
    (metis fst_conv)+

lemma reveal_world:
  "w_db (hres_world (revealHandler extText env r w rw)) =
    fst (fetchAndDelete (re_fetch env) (rq_token r) (w_db w))"
  by (auto simp: revealHandler_def retrieveSecret_def frame_simps split: prod.splits sum.splits)

lemma reveal_result:
  assumes "rs_status rw = None" "rs_body rw = []"
    and res: "res = revealHandler extText env r w rw"
  shows "\<not> hres_panicked res \<and>
    w_db (hres_world res) = fst (fetchAndDelete (re_fetch env) (rq_token r) (w_db w)) \<and>
    (case snd (fetchAndDelete (re_fetch env) (rq_token r) (w_db w)) of
       Inr s \<Rightarrow> status_of (hres_response res) = 200 \<and>
         client_reads (rs_body (hres_response res)) = Some (s_ciphertext s, s_nonce s)
     | Inl e \<Rightarrow>
         if e = ErrNotFound
         then status_of (hres_response res) = 404 \<and>
           rs_body (hres_response res) = ''not found'' @ [char_of (10 :: nat)]
         else status_of (hres_response res) = 500)"
proof (cases "fetchAndDelete (re_fetch env) (rq_token r) (w_db w)")
  case (Pair db' x)
  show ?thesis
  proof (cases x)
    case (Inl e)
    with fetch_error_not_found [of "re_fetch env" "rq_token r" "w_db w" e] Pair assms(1,2)
    show ?thesis by (auto simp: res revealHandler_def retrieveSecret_def status_simps)
  next
    case (Inr s)
    with Pair assms(1,2) show ?thesis
      by (simp add: res revealHandler_def retrieveSecret_def client_reads_payload
          status_simps frame_simps) (simp add: send_json_def)
  qed
qed

section \<open>Properties\<close>

text \<open>A concrete exchange for the witnesses: three bytes of ciphertext, one of nonce, a minute.\<close>

definition plain_tables :: unicode_tables where
  "plain_tables = \<lparr>uc_lower = id, uc_fold = (\<lambda>_ _. False)\<rparr>"

definition demo_start :: world where
  "demo_start = \<lparr>w_db = empty_db, w_logs = []\<rparr>"

definition demo_post :: request where
  "demo_post = demo_get\<lparr>rq_method := ''POST'', rq_body := client_body [1, 2, 3] [9] 60\<rparr>"

definition demo_create_env :: create_env where
  "demo_create_env = \<lparr>ce_rand = Some (\<lambda>_. 7), ce_store = \<lparr>se_clock = 0, se_uuid = ''u9'',
     se_insert = acked 0, se_event = acked 0\<rparr>, ce_write = None\<rparr>"

definition demo_create :: "int \<Rightarrow> world hres" where
  "demo_create maxBytes = createHandler plain_tables id (\<lambda>_. []) maxBytes demo_create_env
     demo_post demo_start new_response"

definition demo_reveal_req :: request where
  "demo_reveal_req = demo_get\<lparr>rq_method := ''POST'', rq_token := token_of (\<lambda>_. 7)\<rparr>"

definition demo_reveal :: "gotime \<Rightarrow> world \<Rightarrow> world hres" where
  "demo_reveal now w = revealHandler (\<lambda>_. [])
     \<lparr>re_fetch = \<lparr>fe_delete = acked now, fe_event = acked now\<rparr>, re_write = None\<rparr> demo_reveal_req w new_response"

lemma demo_simps:
  "rs_status new_response = None" "rs_body new_response = []"
  "rq_body demo_post = client_body [1, 2, 3] [9] 60" "ce_rand demo_create_env = Some (\<lambda>_. 7)"
  "w_db demo_start = empty_db" "rq_token demo_reveal_req = token_of (\<lambda>_. 7)"
  by (simp_all add: new_response_def demo_post_def demo_create_env_def demo_start_def demo_reveal_req_def)

lemma demo_decode:
  "decode_body plain_tables (bodyLimit 100) (client_body [1, 2, 3] [9] 60) =
    Some \<lparr>cb_ciphertext = b64_encode [1, 2, 3], cb_nonce = b64_encode [9], cb_expires_in = 60\<rparr>"
proof -
  have "int (length (client_body [1, 2, 3] [9] 60)) \<le> bodyLimit 100"
    by (rule client_body_fits) (simp_all add: in_int64_def)
  from decode_client_body [OF this] show ?thesis by (simp add: in_int64_def)
qed

lemma demo_store: "snd (store id (ce_store demo_create_env) tok inp empty_db) = None"
  by (simp add: demo_create_env_def store_def acked_def exec_stmt_Applied sql_insert_secret_def empty_db_def)



text \<open>C19: RevealSecret on every branch. A delivered secret is answered with 200 and a body from
  which the browser reads back exactly its ciphertext and nonce. Missing, consumed and
  expired secrets get the same 404; any other error 500. The database changes by the
  FetchAndDelete call alone.\<close>

theorem reveal_branches:
  assumes "rs_status rw = None" "rs_body rw = []"
    and res: "res = revealHandler extText env r w rw"
  shows "\<not> hres_panicked res \<and>
    w_db (hres_world res) = fst (fetchAndDelete (re_fetch env) (rq_token r) (w_db w)) \<and>
    (case snd (fetchAndDelete (re_fetch env) (rq_token r) (w_db w)) of
       Inr s \<Rightarrow> status_of (hres_response res) = 200 \<and>
         client_reads (rs_body (hres_response res)) = Some (s_ciphertext s, s_nonce s)
     | Inl e \<Rightarrow>
         if e = ErrNotFound
         then status_of (hres_response res) = 404 \<and>
           rs_body (hres_response res) = ''not found'' @ [char_of (10 :: nat)]
         else status_of (hres_response res) = 500)"
  by (rule reveal_result [OF assms])

theorem reveal_branches_witness:
  "status_of (hres_response (demo_reveal 5 demo_start)) = 404 \<and>
   rs_body (hres_response (demo_reveal 5 demo_start)) = ''not found'' @ [char_of (10 :: nat)]"
  using reveal_branches [OF demo_simps(1,2), of "demo_reveal 5 demo_start" "\<lambda>_. []"
      "\<lparr>re_fetch = \<lparr>fe_delete = acked 5, fe_event = acked 5\<rparr>, re_write = None\<rparr>"
      demo_reveal_req demo_start]
  by (simp add: demo_reveal_def demo_simps fetch_result acked_def empty_db_def)

text \<open>C31: No allowed secret is refused for its size. With a limit below 2^61, what the browser
  sends for a ciphertext within the limit passes the body limit, decodes to exactly that
  ciphertext, nonce and lifetime, and is stored: the answer is neither 400 nor 413.\<close>

theorem allowed_size_accepted:
  assumes "int (length ct) \<le> maxBytes" "maxBytes < 2 ^ 61" "length nonce \<le> 12000" "in_int64 n"
    and "rq_body r = client_body ct nonce n" "rs_status rw = None" "ce_rand env = Some bs"
  shows "w_db (hres_world (createHandler uc tz extText maxBytes env r w rw)) =
      fst (store tz (ce_store env) (token_of bs)
        \<lparr>ci_ciphertext = ct, ci_nonce = nonce, ci_expires_in = n\<rparr> (w_db w)) \<and>
    status_of (hres_response (createHandler uc tz extText maxBytes env r w rw)) =
      (if snd (store tz (ce_store env) (token_of bs)
          \<lparr>ci_ciphertext = ct, ci_nonce = nonce, ci_expires_in = n\<rparr> (w_db w)) = None
       then 200 else 500)"
  by (rule create_of_client_body [OF client_body_fits [OF assms(1-4)] assms(4,5,1,6,7) refl])

theorem allowed_size_accepted_witness:
  "status_of (hres_response (demo_create 3)) = 200"
  using allowed_size_accepted [of "[1, 2, 3]" 3 "[9]" 60 demo_post new_response demo_create_env "\<lambda>_. 7"
      plain_tables id "\<lambda>_. []" demo_start]
  by (simp add: demo_simps in_int64_def demo_create_def demo_store)

text \<open>For limits of 2^61 bytes and a little less than 2^62 the int64 product in the body
  limit wraps to a negative number, no byte of a body is read, and every create request is
  refused with 400.\<close>

lemma body_limit_overflow:
  assumes "2 ^ 61 \<le> maxBytes" "maxBytes \<le> 2 ^ 62 - 12288" "rs_status rw = None"
  shows "bodyLimit maxBytes \<le> 0 \<and>
    status_of (hres_response (createHandler uc tz extText maxBytes env r w rw)) = 400 \<and>
    w_db (hres_world (createHandler uc tz extText maxBytes env r w rw)) = w_db w"
proof -
  have "wrap64 (maxBytes * 4) = wrap64 (maxBytes * 4 - 2 ^ 64)" by (simp add: wrap64_eq_iff_mod)
  also have "\<dots> = maxBytes * 4 - 2 ^ 64"
    using assms(1,2) by (intro wrap64_id) (simp add: in_int64_def)
  finally have w: "wrap64 (maxBytes * 4) = maxBytes * 4 - 2 ^ 64" .
  have q: "quot64 (maxBytes * 4 - 2 ^ 64) 3 = - ((2 ^ 64 - maxBytes * 4) div 3)"
    using assms(2) by (simp add: quot64_def)
  have "49152 \<le> 2 ^ 64 - maxBytes * 4" "2 ^ 64 - maxBytes * 4 \<le> 2 ^ 63" using assms(1,2) by simp_all
  hence d: "16384 \<le> (2 ^ 64 - maxBytes * 4) div 3" "(2 ^ 64 - maxBytes * 4) div 3 \<le> 2 ^ 63"
    by linarith+
  hence "bodyLimit maxBytes = 16384 - (2 ^ 64 - maxBytes * 4) div 3"
    unfolding bodyLimit_def w q by (subst wrap64_id) (simp_all add: in_int64_def)
  hence le: "bodyLimit maxBytes \<le> 0" using d by linarith
  have "parse_value 0 [] = None" by (simp add: parse_value.simps skip_ws_def)
  hence "decode_body uc (bodyLimit maxBytes) b = None" for b
    using le by (simp add: decode_body_def)
  with le assms(3) show ?thesis by (simp add: createHandler_def status_simps)
qed

text \<open>C1: The life of a secret, end to end. The browser posts a ciphertext within the limit;
  the insert is acknowledged and hits no used token or id. Then, whatever other repository
  calls run in between (stores of any kind, fetches of other tokens, clean-ups before the
  expiry), a reveal of the token before its expiry answers 200 with exactly the posted
  ciphertext and nonce; and after any further calls that do not store this token again,
  every later reveal that reaches the database gets 404.\<close>

theorem secret_life:
  fixes w w2 w3 :: "'a world_scheme"
  assumes "db_ok (w_db w)" "int (length ct) \<le> maxBytes" "maxBytes < 2 ^ 61" "length nonce \<le> 12000"
    and "in_int64 n" "rq_body r = client_body ct nonce n" "ce_rand env = Some bs"
    and "c_out (se_insert (ce_store env)) = Applied"
    and "se_uuid (ce_store env) \<notin> s_id ` set (secrets (w_db w))"
    and "token_of bs \<notin> s_token ` set (secrets (w_db w))"
    and row: "row = new_row tz (ce_store env) (token_of bs)
      \<lparr>ci_ciphertext = ct, ci_nonce = nonce, ci_expires_in = n\<rparr>"
    and "list_all (spares row) ops" "unexpired (c_now (fe_delete (re_fetch env2))) row"
    and "c_out (fe_delete (re_fetch env2)) = Applied" "c_out (fe_delete (re_fetch env3)) = Applied"
    and "list_all (stores_other (token_of bs)) ops'"
    and "w_db w2 = run_ops tz ops (w_db (hres_world (createHandler uc tz extText maxBytes env r w new_response)))"
    and "w_db w3 = run_ops tz ops' (w_db (hres_world (revealHandler extText env2 r2 w2 new_response)))"
    and "rq_token r2 = token_of bs" "rq_token r3 = token_of bs"
  shows "status_of (hres_response (createHandler uc tz extText maxBytes env r w new_response)) = 200 \<and>
    status_of (hres_response (revealHandler extText env2 r2 w2 new_response)) = 200 \<and>
    client_reads (rs_body (hres_response (revealHandler extText env2 r2 w2 new_response))) =
      Some (ct, nonce) \<and>
    status_of (hres_response (revealHandler extText env3 r3 w3 new_response)) = 404"
proof -
  let ?inp = "\<lparr>ci_ciphertext = ct, ci_nonce = nonce, ci_expires_in = n\<rparr>"
  note new = new_response_def
  have tok: "s_token row = token_of bs" by (simp add: row new_row_def)
  have put: "snd (put_acked (se_event (ce_store env)) row (w_db w))"
    using assms(9,10) by (simp add: put_acked_eq row new_row_def)
  have st: "store tz (ce_store env) (token_of bs) ?inp (w_db w) =
      (fst (put_acked (se_event (ce_store env)) row (w_db w)), None)"
    using put by (simp add: store_is_put [OF assms(8)] row case_prod_beta)
  from create_of_client_body [OF client_body_fits [OF assms(2-5)] assms(5,6,2) _ assms(7) refl,
      of new_response uc tz extText w] st
  have c: "w_db (hres_world (createHandler uc tz extText maxBytes env r w new_response)) =
        fst (put_acked (se_event (ce_store env)) row (w_db w))"
    "status_of (hres_response (createHandler uc tz extText maxBytes env r w new_response)) = 200"
    by (simp_all add: new)
  have "row \<in> set (secrets (fst (put_acked (se_event (ce_store env)) row (w_db w))))"
    using put by (auto simp: put_acked_eq frame_simps split: if_splits)
  hence in2: "row \<in> set (secrets (w_db w2))" using assms(12,17) c(1) by (simp add: run_ops_keep)
  have ok2: "db_ok (w_db w2)"
    using assms(1,17) c(1) by (simp add: run_ops_ok put_acked_ok)
  note got = fetch_present [OF ok2 in2 assms(13,14), unfolded tok]
  have "token_of bs \<notin> s_token ` set (secrets (w_db w3))"
    using run_ops_absent [OF assms(16) got(2)] assms(18,19)
    by (simp add: reveal_world)
  hence "status_of (hres_response (revealHandler extText env3 r3 w3 new_response)) = 404"
    using reveal_result [OF _ _ refl, of new_response extText env3 r3 w3]
      fetch_absent [OF _ assms(15)] assms(20) by (simp add: new)
  thus ?thesis
    using reveal_result [OF _ _ refl, of new_response extText env2 r2 w2] got(1) c(2) assms(19)
    by (simp add: new row new_row_def)
qed

definition demo_cleaned :: world where
  "demo_cleaned = \<lparr>w_db = run_ops id [OpCleanup \<lparr>cl_delete = acked 5, cl_event = acked 5\<rparr>]
     (w_db (hres_world (demo_create 100))), w_logs = []\<rparr>"

theorem secret_life_witness:
  "status_of (hres_response (demo_create 100)) = 200 \<and>
   client_reads (rs_body (hres_response (demo_reveal 6 demo_cleaned))) = Some ([1, 2, 3], [9]) \<and>
   status_of (hres_response (demo_reveal 7 (hres_world (demo_reveal 6 demo_cleaned)))) = 404"
proof -
  let ?row = "new_row id (ce_store demo_create_env) (token_of (\<lambda>_. 7))
    \<lparr>ci_ciphertext = [1, 2, 3], ci_nonce = [9], ci_expires_in = 60\<rparr>"
  have row: "unexpired 6 ?row" "\<not> past_expiry 5 ?row"
    by (simp_all add: new_row_def demo_create_env_def unexpired_def past_expiry_def expiry_at_def in_int64_def)
  note life = secret_life [where w = demo_start and ct = "[1, 2, 3]" and maxBytes = 100 and nonce = "[9]"
      and n = 60 and r = demo_post and env = demo_create_env and bs = "\<lambda>_. 7" and tz = id and row = ?row
      and ops = "[OpCleanup \<lparr>cl_delete = acked 5, cl_event = acked 5\<rparr>]" and ops' = "[]"
      and ?env2.0 = "\<lparr>re_fetch = \<lparr>fe_delete = acked 6, fe_event = acked 6\<rparr>, re_write = None\<rparr>"
      and ?env3.0 = "\<lparr>re_fetch = \<lparr>fe_delete = acked 7, fe_event = acked 7\<rparr>, re_write = None\<rparr>"
      and uc = plain_tables and extText = "\<lambda>_. []" and ?r2.0 = demo_reveal_req and ?r3.0 = demo_reveal_req
      and ?w2.0 = demo_cleaned and ?w3.0 = "hres_world (demo_reveal 6 demo_cleaned)",
      folded demo_create_def demo_reveal_def]
  have c: "c_out (se_insert (ce_store demo_create_env)) = Applied" "c_out (acked t) = Applied" "c_now (acked t) = t" for t
    by (simp_all add: demo_create_env_def acked_def)
  show ?thesis
    using life row by (simp add: demo_simps in_int64_def c demo_cleaned_def empty_db_def db_ok_def)
qed

end
