(* ===== verification/Admin.thy ===== *)
theory Admin
  imports Handler "HOL-Library.Multiset"
begin

text \<open>
  internal/handler/admin.go: the admin pages under /health. Arguments stand for what is
  outside the repository: \<open>sha\<close> for SHA-256, \<open>parseHost\<close> for the host that url.Parse
  finds, \<open>ago\<close> for PostgreSQL's \<open>NOW() - interval\<close>, \<open>arrange\<close> for the order in which
  the server returns the rows of a query, \<open>pretty\<close> for re-indenting a JSON text (\<open>None\<close>
  if it does not parse), the templates as in Handler. A read-only query can fail, or break
  off after some rows; a failing Scan ends the iteration too.
\<close>

section \<open>Construction\<close>

definition parseAdminTemplates :: "(string list \<Rightarrow> string + 't) \<Rightarrow> string + (string \<Rightarrow> 't option)" where
  "parseAdminTemplates parse =
     (case parse_pages parse [''health''] Map.empty of
        Inl e \<Rightarrow> Inl e
      | Inr m \<Rightarrow>
          (case parse [''templates/health_logs_partial.html''] of
             Inl e \<Rightarrow> Inl e
           | Inr t \<Rightarrow> Inr (m(''health_logs_partial'' \<mapsto> t))))"

record 't admin_handler =
  ad_user :: string
  ad_pass :: string
  ad_start :: gotime
  ad_tmpls :: "string \<Rightarrow> 't option"

definition newAdminHandler ::
    "(string list \<Rightarrow> string + 't) \<Rightarrow> gotime \<Rightarrow> string \<Rightarrow> string \<Rightarrow> string + 't admin_handler" where
  "newAdminHandler parse now user pass =
     (case parseAdminTemplates parse of
        Inl e \<Rightarrow> Inl e
      | Inr tmpls \<Rightarrow> Inr \<lparr>ad_user = user, ad_pass = pass, ad_start = now, ad_tmpls = tmpls\<rparr>)"

section \<open>Basic authentication\<close>

definition string_of_bytes :: "bytes \<Rightarrow> string" where
  "string_of_bytes bs = map (\<lambda>b. char_of (unat b)) bs"

definition bytes_of_string :: "string \<Rightarrow> bytes" where
  "bytes_of_string s = map (\<lambda>c. of_char c) s"

fun cut_at :: "char \<Rightarrow> string \<Rightarrow> (string \<times> string) option" where
  "cut_at x [] = None"
| "cut_at x (c # s) =
     (if c = x then Some ([], s) else map_option (\<lambda>(a, b). (c # a, b)) (cut_at x s))"

text \<open>Request.BasicAuth\<close>

definition basicAuth :: "string \<Rightarrow> (string \<times> string) option" where
  "basicAuth auth =
     (if map lower_char (take 6 auth) \<noteq> map lower_char ''Basic '' then None
      else (case b64_decode (drop 6 auth) of
              None \<Rightarrow> None
            | Some c \<Rightarrow> cut_at (CHR '':'') (string_of_bytes c)))"

definition basicAuthHandler ::
    "(string \<Rightarrow> bytes) \<Rightarrow> 't admin_handler \<Rightarrow> 'a world_scheme handler \<Rightarrow> 'a world_scheme handler" where
  "basicAuthHandler sha a next = (\<lambda>r w rw.
     if ad_user a = [] \<or> ad_pass a = [] then
       Done w (write_body (''Admin interface is disabled.'' @ [char_of (10 :: nat)] @
                ''Set ADMIN_USER and ADMIN_PASSWORD environment variables to enable it.'')
         (write_header 403 (set_header ''Content-Type'' ''text/plain; charset=utf-8'' rw)))
     else
       (let creds = basicAuth (header_get r ''Authorization'');
            user = (case creds of Some (u, _) \<Rightarrow> u | None \<Rightarrow> []);
            pass = (case creds of Some (_, p) \<Rightarrow> p | None \<Rightarrow> []);
            userMatch = (sha user = sha (ad_user a));
            passMatch = (sha pass = sha (ad_pass a))
        in if creds = None \<or> \<not> userMatch \<or> \<not> passMatch then
             Done w (http_error ''Unauthorized'' 401
               (set_header ''WWW-Authenticate'' ''Basic realm=\"disapyr-admin\"'' rw))
           else next r w rw))"

section \<open>Same-origin check\<close>

text \<open>URL.Hostname: a trailing port made of digits goes, then brackets.\<close>

definition hostname :: "string \<Rightarrow> string" where
  "hostname hp =
     (let h = (case last_colon hp of
                 Some i \<Rightarrow> if list_all is_digit (drop (Suc i) hp) then take i hp else hp
               | None \<Rightarrow> hp)
      in if hasPrefix h ''['' \<and> h \<noteq> [] \<and> last h = CHR '']'' then butlast (tl h) else h)"

definition origin_check ::
    "unicode_tables \<Rightarrow> (string \<Rightarrow> string option) \<Rightarrow> request \<Rightarrow> string \<Rightarrow> bool" where
  "origin_check uc parseHost r raw =
     (case parseHost raw of
        None \<Rightarrow> False
      | Some host \<Rightarrow> equalFold uc host (rq_host r) \<or> equalFold uc (hostname host) (rq_host r))"

definition sameOrigin :: "unicode_tables \<Rightarrow> (string \<Rightarrow> string option) \<Rightarrow> request \<Rightarrow> bool" where
  "sameOrigin uc parseHost r =
     (if header_get r ''Origin'' \<noteq> [] then origin_check uc parseHost r (header_get r ''Origin'')
      else if header_get r ''Referer'' \<noteq> [] then origin_check uc parseHost r (header_get r ''Referer'')
      else True)"

section \<open>Windows and times\<close>

definition windowToInterval :: "string \<Rightarrow> string" where
  "windowToInterval window =
     (if window = ''1h'' then ''1 hour''
      else if window = ''6h'' then ''6 hours''
      else if window = ''7d'' then ''7 days''
      else ''24 hours'')"

definition humanWindow :: "string \<Rightarrow> string" where
  "humanWindow window =
     (if window = ''1h'' then ''1 hour''
      else if window = ''6h'' then ''6 hours''
      else if window = ''7d'' then ''7 days''
      else ''24 hours'')"

text \<open>Duration.Round(time.Second), and the readings that formatUptime takes of the result.\<close>

definition roundSecond :: "int \<Rightarrow> int" where
  "roundSecond d =
     (let m = 1000000000; r = \<bar>rem64 d m\<bar> in
      if d < 0 then
        (if r + r < m then d + r else if wrap64 (d - m + r) < d then wrap64 (d - m + r) else min_int64)
      else
        (if r + r < m then d - r else if d < wrap64 (d + m - r) then wrap64 (d + m - r) else max_int64))"

definition formatUptime :: "int \<Rightarrow> string" where
  "formatUptime d0 =
     (let d = roundSecond d0;
          days = quot64 (quot64 d 3600000000000) 24;
          hours = rem64 (quot64 d 3600000000000) 24;
          minutes = rem64 (quot64 d 60000000000) 60;
          seconds = rem64 (quot64 d 1000000000) 60
      in if days > 0 then itoa days @ ''d '' @ itoa hours @ ''h '' @ itoa minutes @ ''m''
         else if hours > 0 then itoa hours @ ''h '' @ itoa minutes @ ''m''
         else itoa minutes @ ''m '' @ itoa seconds @ ''s'')"

section \<open>Queries\<close>

record query_env =
  qe_now :: gotime
  qe_err :: "string option"
  qe_break :: "(nat \<times> string) option"

definition delivered :: "query_env \<Rightarrow> 'r list \<Rightarrow> 'r list" where
  "delivered q rows = (case qe_break q of None \<Rightarrow> rows | Some (k, _) \<Rightarrow> take k rows)"

abbreviation warn_error :: "string \<Rightarrow> string \<Rightarrow> 'a world_scheme \<Rightarrow> 'a world_scheme" where
  "warn_error msg e w \<equiv> log_at levelWarn msg [err_attr ''error'' e] w"

text \<open>querySecretStats: the groups come in any order; a type that is missing counts zero.\<close>

definition sql_event_sums :: "(string list \<Rightarrow> string list) \<Rightarrow> database \<Rightarrow> (string \<times> int) list" where
  "sql_event_sums arrange db =
     map (\<lambda>ty. (ty, total ty db)) (arrange (remdups (map ev_type (secret_events db))))"

fun add_stat :: "string \<times> int \<Rightarrow> int \<times> int \<times> int \<Rightarrow> int \<times> int \<times> int" where
  "add_stat (ty, n) (created, retrieved, expired) =
     (if ty = ''created'' then (n, retrieved, expired)
      else if ty = ''retrieved'' then (created, n, expired)
      else if ty = ''expired'' then (created, retrieved, n)
      else (created, retrieved, expired))"

definition querySecretStats ::
    "(string list \<Rightarrow> string list) \<Rightarrow> query_env \<Rightarrow> 'a world_scheme \<Rightarrow>
     (int \<times> int \<times> int) \<times> 'a world_scheme" where
  "querySecretStats arrange q w =
     (case qe_err q of
        Some e \<Rightarrow> ((0, 0, 0), warn_error ''querySecretStats'' e w)
      | None \<Rightarrow>
          (fold add_stat (delivered q (sql_event_sums arrange (w_db w))) (0, 0, 0),
           case qe_break q of
             None \<Rightarrow> w
           | Some (_, e) \<Rightarrow> warn_error ''querySecretStats iteration'' e w))"

record level_count =
  lc_level :: string
  lc_class :: string
  lc_count :: int

definition sql_level_counts ::
    "(string \<Rightarrow> gotime \<Rightarrow> gotime) \<Rightarrow> ((string \<times> int) list \<Rightarrow> (string \<times> int) list) \<Rightarrow> gotime \<Rightarrow>
     database \<Rightarrow> (string \<times> int) list" where
  "sql_level_counts ago arrange now db =
     (let recent = filter (\<lambda>l. lg_ts l > ago ''24 hours'' now) (app_logs db) in
      arrange (map (\<lambda>lv. (lv, int (length (filter (\<lambda>l. lg_level l = lv) recent))))
        (remdups (map lg_level recent))))"

definition queryLogSummary ::
    "unicode_tables \<Rightarrow> (string \<Rightarrow> gotime \<Rightarrow> gotime) \<Rightarrow> ((string \<times> int) list \<Rightarrow> (string \<times> int) list) \<Rightarrow>
     query_env \<Rightarrow> 'a world_scheme \<Rightarrow> level_count list \<times> 'a world_scheme" where
  "queryLogSummary uc ago arrange q w =
     (case qe_err q of
        Some e \<Rightarrow> ([], warn_error ''queryLogSummary'' e w)
      | None \<Rightarrow>
          (map (\<lambda>(lv, n). \<lparr>lc_level = lv, lc_class = toLower uc lv, lc_count = n\<rparr>)
             (delivered q (sql_level_counts ago arrange (qe_now q) (w_db w))), w))"

record log_row =
  lr_id :: nat
  lr_ts :: gotime
  lr_level :: string
  lr_class :: string
  lr_msg :: string
  lr_attrs :: string

definition log_row_of :: "unicode_tables \<Rightarrow> (string \<Rightarrow> string option) \<Rightarrow> app_log \<Rightarrow> log_row" where
  "log_row_of uc pretty l =
     \<lparr>lr_id = lg_id l, lr_ts = lg_ts l, lr_level = lg_level l, lr_class = toLower uc (lg_level l),
      lr_msg = lg_msg l,
      lr_attrs =
        (case lg_attrs l of
           None \<Rightarrow> []
         | Some raw \<Rightarrow>
             if raw = [] then [] else (case pretty raw of Some b \<Rightarrow> b | None \<Rightarrow> raw))\<rparr>"

definition page_size :: int where "page_size = 50"

definition sql_select_logs ::
    "(string \<Rightarrow> gotime \<Rightarrow> gotime) \<Rightarrow> string \<Rightarrow> string \<Rightarrow> gotime \<Rightarrow> database \<Rightarrow> app_log list" where
  "sql_select_logs ago level interval now db =
     filter (\<lambda>l. (level = [] \<or> lg_level l = level) \<and> lg_ts l > ago interval now) (app_logs db)"

text \<open>
  LIMIT and OFFSET of the arranged rows. A negative OFFSET is an error that pgx reports when
  the rows are read, and the method never looks at the error of the iteration: no rows.
\<close>

definition sql_page :: "int \<Rightarrow> app_log list \<Rightarrow> app_log list" where
  "sql_page offset ls = (if offset < 0 then [] else take (nat page_size) (drop (nat offset) ls))"

record logs_env =
  le_count :: query_env
  le_rows :: query_env

record web_env =
  we_uc :: unicode_tables
  we_ago :: "string \<Rightarrow> gotime \<Rightarrow> gotime"
  we_arrange :: "app_log list \<Rightarrow> app_log list"
  we_pretty :: "string \<Rightarrow> string option"

definition queryLogs ::
    "web_env \<Rightarrow> logs_env \<Rightarrow> string \<Rightarrow> string \<Rightarrow> int \<Rightarrow> 'a world_scheme \<Rightarrow>
     (log_row list \<times> int) \<times> 'a world_scheme" where
  "queryLogs env q level window page w =
     (let offset = wrap64 (page * page_size); interval = windowToInterval window in
      case qe_err (le_count q) of
        Some e \<Rightarrow> (([], 0), warn_error ''queryLogs count'' e w)
      | None \<Rightarrow>
          (let n = int (length (sql_select_logs (we_ago env) level interval (qe_now (le_count q)) (w_db w)))
           in case qe_err (le_rows q) of
                Some e \<Rightarrow> (([], n), warn_error ''queryLogs rows'' e w)
              | None \<Rightarrow>
                  ((map (log_row_of (we_uc env) (we_pretty env))
                      (delivered (le_rows q) (sql_page offset
                        (we_arrange env (sql_select_logs (we_ago env) level interval
                           (qe_now (le_rows q)) (w_db w))))), n), w)))"

section \<open>Pages\<close>

record health_data =
  hd_app_status :: string
  hd_db_status :: string
  hd_db_error :: string
  hd_conns :: "int \<times> int \<times> int"
  hd_uptime :: string
  hd_go_version :: string
  hd_summary :: "level_count list"
  hd_logs :: "log_row list"
  hd_total :: int
  hd_secrets :: "int \<times> int \<times> int"

record partial_data =
  pd_rows :: "log_row list"
  pd_total :: int
  pd_page :: int
  pd_next :: int
  pd_prev :: int
  pd_level :: string
  pd_window :: string
  pd_has_more :: bool
  pd_page_size :: int
  pd_clear_msg :: string

datatype admin_page = HealthPage health_data | LogsPartial partial_data

definition render_admin ::
    "('t \<Rightarrow> admin_page \<Rightarrow> string \<times> string option) \<Rightarrow> 't admin_handler \<Rightarrow> string \<Rightarrow> string \<Rightarrow>
     admin_page \<Rightarrow> 'a world_scheme \<Rightarrow> response \<Rightarrow> 'a world_scheme hres" where
  "render_admin exec a name msg d w rw =
     (case ad_tmpls a name of
        None \<Rightarrow> Done w (http_error ''template not found'' 500 rw)
      | Some t \<Rightarrow>
          (case exec t d of
             (out, e) \<Rightarrow>
               Done (case e of
                       None \<Rightarrow> w
                     | Some m \<Rightarrow> log_at levelError msg [err_attr ''error'' m] w)
                    (write_body out
                      (set_header ''Content-Type'' ''text/html; charset=utf-8'' rw))))"

record health_env =
  he_now :: gotime
  he_ping :: "string option"
  he_stat :: "int \<times> int \<times> int"
  he_version :: string
  he_summary :: query_env
  he_summary_order :: "(string \<times> int) list \<Rightarrow> (string \<times> int) list"
  he_stats :: query_env
  he_stats_order :: "string list \<Rightarrow> string list"
  he_logs :: logs_env

definition serveHealth ::
    "('t \<Rightarrow> admin_page \<Rightarrow> string \<times> string option) \<Rightarrow> web_env \<Rightarrow> 't admin_handler \<Rightarrow> health_env \<Rightarrow>
     'a world_scheme handler" where
  "serveHealth exec env a q = (\<lambda>r w rw.
     let w1 = (case he_ping q of
                 Some e \<Rightarrow> warn_error ''health check: DB ping failed'' e w
               | None \<Rightarrow> w)
     in case queryLogSummary (we_uc env) (we_ago env) (he_summary_order q) (he_summary q) w1 of
          (summary, w2) \<Rightarrow>
            (case querySecretStats (he_stats_order q) (he_stats q) w2 of
               (stats, w3) \<Rightarrow>
                 (case queryLogs env (he_logs q) [] ''24h'' 0 w3 of
                    ((rows, n), w4) \<Rightarrow>
                      render_admin exec a ''health'' ''health template execute''
                        (HealthPage
                          \<lparr>hd_app_status = ''healthy'',
                           hd_db_status = (if he_ping q = None then ''healthy'' else ''unhealthy''),
                           hd_db_error = (case he_ping q of Some e \<Rightarrow> e | None \<Rightarrow> []),
                           hd_conns = (if he_ping q = None then he_stat q else (0, 0, 0)),
                           hd_uptime = formatUptime (he_now q - ad_start a),
                           hd_go_version = he_version q, hd_summary = summary, hd_logs = rows,
                           hd_total = n, hd_secrets = stats\<rparr>) w4 rw)))"

definition page_of :: "string \<Rightarrow> int" where
  "page_of s = (let n = fst (parse_int64 s) in if n < 0 then 0 else n)"

definition logs_partial :: "log_row list \<times> int \<Rightarrow> int \<Rightarrow> string \<Rightarrow> string \<Rightarrow> partial_data" where
  "logs_partial found page level window =
     \<lparr>pd_rows = fst found, pd_total = snd found, pd_page = page, pd_next = wrap64 (page + 1),
      pd_prev = wrap64 (page - 1), pd_level = level, pd_window = window,
      pd_has_more = wrap64 (wrap64 (page + 1) * page_size) < snd found,
      pd_page_size = page_size, pd_clear_msg = []\<rparr>"

definition serveHealthLogs ::
    "('t \<Rightarrow> admin_page \<Rightarrow> string \<times> string option) \<Rightarrow> web_env \<Rightarrow> 't admin_handler \<Rightarrow> logs_env \<Rightarrow>
     'a world_scheme handler" where
  "serveHealthLogs exec env a q = (\<lambda>r w rw.
     let level = get_first (rq_query r) ''level'';
         window0 = get_first (rq_query r) ''window'';
         window = (if window0 = [] then ''24h'' else window0);
         page = page_of (get_first (rq_query r) ''page'')
     in case queryLogs env q level window page w of
          ((rows, n), w1) \<Rightarrow>
            render_admin exec a ''health_logs_partial'' ''health logs partial execute''
              (LogsPartial (logs_partial (rows, n) page level window)) w1 rw)"

definition sql_delete_all_logs :: "database \<Rightarrow> db_error + database \<times> int" where
  "sql_delete_all_logs db = Inr (db\<lparr>app_logs := []\<rparr>, int (length (app_logs db)))"

definition sql_delete_old_logs ::
    "(string \<Rightarrow> gotime \<Rightarrow> gotime) \<Rightarrow> string \<Rightarrow> gotime \<Rightarrow> database \<Rightarrow> db_error + database \<times> int" where
  "sql_delete_old_logs ago interval now db =
     (let old = (\<lambda>l. lg_ts l < ago interval now) in
      Inr (db\<lparr>app_logs := filter (\<lambda>l. \<not> old l) (app_logs db)\<rparr>,
           int (length (filter old (app_logs db)))))"

record clear_env =
  ae_delete :: call
  ae_logs :: logs_env

definition clear_statement ::
    "(string \<Rightarrow> gotime \<Rightarrow> gotime) \<Rightarrow> string \<Rightarrow> gotime \<Rightarrow> database \<Rightarrow> db_error + database \<times> int" where
  "clear_statement ago olderThan now =
     (if olderThan = [] then sql_delete_all_logs
      else sql_delete_old_logs ago (windowToInterval olderThan) now)"

definition clearLogs ::
    "('t \<Rightarrow> admin_page \<Rightarrow> string \<times> string option) \<Rightarrow> (err \<Rightarrow> string) \<Rightarrow> (string \<Rightarrow> string option) \<Rightarrow>
     web_env \<Rightarrow> 't admin_handler \<Rightarrow> clear_env \<Rightarrow> 'a world_scheme handler" where
  "clearLogs exec extText parseHost env a q = (\<lambda>r w rw.
     if \<not> sameOrigin (we_uc env) parseHost r then
       Done w (http_error ''Forbidden: cross-origin request'' 403 rw)
     else
       (let olderThan = form_value r ''older_than'' in
        case exec_stmt (c_out (ae_delete q))
               (clear_statement (we_ago env) olderThan (c_now (ae_delete q))) (w_db w) of
          (db', Inl e) \<Rightarrow>
            Done (log_at levelWarn ''clear logs failed''
                    [str_attr ''older_than'' olderThan, err_attr ''error'' (extText (ErrDb e))]
                    (w\<lparr>w_db := db'\<rparr>))
                 (http_error (''failed to clear logs: '' @ extText (ErrDb e)) 500 rw)
        | (db', Inr n) \<Rightarrow>
            (case queryLogs env (ae_logs q) [] ''24h'' 0
                   (log_at levelWarn ''logs cleared by admin''
                      [str_attr ''older_than'' olderThan, (''rows_deleted'', VAny (AnyInt n)),
                       str_attr ''remote_addr'' (rq_remote r)] (w\<lparr>w_db := db'\<rparr>)) of
               ((rows, found), w1) \<Rightarrow>
                 render_admin exec a ''health_logs_partial'' ''clear logs partial execute''
                   (LogsPartial
                     \<lparr>pd_rows = rows, pd_total = found, pd_page = 0, pd_next = 1, pd_prev = - 1,
                      pd_level = [], pd_window = ''24h'', pd_has_more = page_size < found,
                      pd_page_size = page_size,
                      pd_clear_msg =
                        (if olderThan = [] then ''All logs cleared.''
                         else ''Logs older than '' @ humanWindow olderThan @ '' cleared.'')\<rparr>) w1 rw)))"

section \<open>Headers and frames\<close>

lemma keeps_render_admin: "guarded security_headers rw \<Longrightarrow>
  guarded security_headers (hres_response (render_admin exec a name m d w rw))"
  by (auto simp: render_admin_def split: option.splits prod.splits intro!: guarded_write_body)

lemma keeps_basicAuthHandler: "keeps_headers next \<Longrightarrow> keeps_headers (basicAuthHandler sha a next)"
  by (auto simp: keeps_headers_def basicAuthHandler_def Let_def
      intro!: guarded_write_body guarded_write_header)

lemma keeps_serveHealth: "keeps_headers (serveHealth exec env a q)"
  by (simp add: keeps_headers_def serveHealth_def Let_def case_prod_beta keeps_render_admin)

lemma keeps_serveHealthLogs: "keeps_headers (serveHealthLogs exec env a q)"
  by (simp add: keeps_headers_def serveHealthLogs_def Let_def case_prod_beta keeps_render_admin)

lemma keeps_clearLogs: "keeps_headers (clearLogs exec extText parseHost env a q)"
  by (auto simp: keeps_headers_def clearLogs_def Let_def keeps_render_admin
      split: prod.splits sum.splits)

lemma render_admin_db [frame_simps]:
  "w_db (hres_world (render_admin exec a name m d w rw)) = w_db w"
  by (auto simp: render_admin_def split: option.splits prod.splits)

lemma queryLogs_db [frame_simps]: "w_db (snd (queryLogs env q level window page w)) = w_db w"
  by (auto simp: queryLogs_def Let_def split: option.splits)

lemma querySecretStats_db [frame_simps]: "w_db (snd (querySecretStats arrange q w)) = w_db w"
  by (auto simp: querySecretStats_def split: option.splits)

lemma queryLogSummary_db [frame_simps]: "w_db (snd (queryLogSummary uc ago arrange q w)) = w_db w"
  by (auto simp: queryLogSummary_def split: option.splits)

lemma serveHealth_db [frame_simps]: "w_db (hres_world (serveHealth exec env a q r w rw)) = w_db w"
  by (simp add: serveHealth_def Let_def case_prod_beta frame_simps split: option.splits)

lemma serveHealthLogs_db [frame_simps]:
  "w_db (hres_world (serveHealthLogs exec env a q r w rw)) = w_db w"
  by (simp add: serveHealthLogs_def Let_def case_prod_beta frame_simps)

lemma clear_statement_effect:
  "clear_statement ago olderThan now db =
    Inr (db\<lparr>app_logs := filter (\<lambda>l. olderThan \<noteq> [] \<and> \<not> lg_ts l < ago (windowToInterval olderThan) now) (app_logs db)\<rparr>,
      int (length (filter (\<lambda>l. olderThan = [] \<or> lg_ts l < ago (windowToInterval olderThan) now) (app_logs db))))"
  by (simp add: clear_statement_def sql_delete_all_logs_def sql_delete_old_logs_def Let_def)

lemma clearLogs_db:
  "w_db (hres_world (clearLogs exec extText parseHost env a q r w rw)) =
    (if sameOrigin (we_uc env) parseHost r
     then fst (exec_stmt (c_out (ae_delete q))
       (clear_statement (we_ago env) (form_value r ''older_than'') (c_now (ae_delete q))) (w_db w))
     else w_db w)"
  by (simp add: clearLogs_def Let_def case_prod_beta frame_simps split: prod.splits sum.splits)

lemma clearLogs_keeps_secrets [frame_simps]:
  "secrets (w_db (hres_world (clearLogs exec extText parseHost env a q r w rw))) = secrets (w_db w)"
  "secret_events (w_db (hres_world (clearLogs exec extText parseHost env a q r w rw))) = secret_events (w_db w)"
  unfolding clearLogs_db
  by (auto simp: exec_stmt_def clear_statement_effect split: outcome.splits)

lemma byte_of_char: "unat (of_char c :: byte) = of_char c"
proof -
  have "(of_char c :: byte) = of_nat (of_char c)" by (simp add: of_nat_of_char)
  hence "unat (of_char c :: byte) = of_char c mod 2 ^ 8" by (simp only: unat_of_nat) simp
  thus ?thesis by simp
qed

lemma string_of_bytes_of_string [simp]: "string_of_bytes (bytes_of_string s) = s"
  by (induction s) (simp_all add: string_of_bytes_def bytes_of_string_def byte_of_char)

lemma cut_at_append: "x \<notin> set u \<Longrightarrow> cut_at x (u @ x # p) = Some (u, p)"
  by (induction u) auto

lemma cut_at_no_sep: "cut_at x s = Some (u, p) \<Longrightarrow> x \<notin> set u"
  by (induction s arbitrary: u) (auto split: if_splits)

text \<open>What a browser sends for a user name and a password.\<close>

definition auth_header :: "string \<Rightarrow> string \<Rightarrow> string" where
  "auth_header user pass = ''Basic '' @ b64_encode (bytes_of_string (user @ '':'' @ pass))"

lemma basicAuth_header: "CHR '':'' \<notin> set u \<Longrightarrow> basicAuth (auth_header u p) = Some (u, p)"
  by (simp add: basicAuth_def auth_header_def b64.dec_enc cut_at_append)

lemma ascii_hostname: "ascii hp \<Longrightarrow> ascii (hostname hp)"
  by (auto simp: hostname_def Let_def ascii_def list_all_iff
      dest!: in_set_takeD in_set_butlastD list.set_sel(2) [rotated] split: option.splits)

lemma last_colon_append: "CHR '':'' \<notin> set port \<Longrightarrow> last_colon (h @ CHR '':'' # port) = Some (length h)"
proof -
  have "CHR '':'' \<notin> set s \<Longrightarrow> last_colon s = None" for s by (induction s) auto
  thus "CHR '':'' \<notin> set port \<Longrightarrow> ?thesis" by (induction h) auto
qed

lemma hostname_port:
  assumes "list_all is_digit port" "CHR '']'' \<notin> set h"
  shows "hostname (h @ CHR '':'' # port) = h"
proof -
  have "CHR '':'' \<notin> set port" using assms(1) by (auto simp: list_all_iff is_digit_def)
  moreover have "h \<noteq> [] \<Longrightarrow> last h \<noteq> CHR '']''" using assms(2) last_in_set by force
  ultimately show ?thesis using assms(1) by (auto simp: hostname_def last_colon_append Let_def)
qed

section \<open>Properties\<close>


definition demo_admin :: "unit admin_handler" where
  "demo_admin = \<lparr>ad_user = ''ops'', ad_pass = ''pw'', ad_start = 0, ad_tmpls = [''health_logs_partial'' \<mapsto> ()]\<rparr>"

definition demo_auth :: request where
  "demo_auth = demo_get\<lparr>rq_headers := [(''Authorization'', auth_header ''ops'' ''pw'')]\<rparr>"

lemma demo_auth_simps:
  "header_get demo_auth ''Authorization'' = auth_header ''ops'' ''pw''"
  "basicAuth (header_get demo_get ''Authorization'') = None"
  by (simp_all add: demo_auth_def demo_get_def get_first_def basicAuth_def lower_char_def ascii_lower_def)


text \<open>A configured user name with a colon locks everybody out: the header is cut at its first
  colon, so that, short of a SHA-256 collision with the configured name, no request at all
  is let through.\<close>

lemma colon_user_locked_out:
  assumes "CHR '':'' \<in> set (ad_user a)" "\<And>u. sha u = sha (ad_user a) \<Longrightarrow> u = ad_user a"
    and "rs_status rw = None"
  shows "hres_world (basicAuthHandler sha a next r w rw) = w \<and>
    status_of (hres_response (basicAuthHandler sha a next r w rw)) \<in> {401, 403}"
proof -
  have "sha u \<noteq> sha (ad_user a)" if "basicAuth h = Some (u, p)" for h u p
    using that assms(1,2) by (auto simp: basicAuth_def split: if_splits option.splits dest: cut_at_no_sep)
  thus ?thesis
    using assms(3)
    by (cases "basicAuth (header_get r ''Authorization'')")
      (auto simp: basicAuthHandler_def Let_def status_simps)
qed


definition demo_query :: query_env where
  "demo_query = \<lparr>qe_now = 100, qe_err = None, qe_break = None\<rparr>"

definition demo_web :: web_env where
  "demo_web = \<lparr>we_uc = plain_tables, we_ago = (\<lambda>_ now. now - 50), we_arrange = rev, we_pretty = Some\<rparr>"

definition demo_logs :: world where
  "demo_logs = \<lparr>w_db = empty_db\<lparr>app_logs :=
     [\<lparr>lg_id = 1, lg_ts = 10, lg_level = ''INFO'', lg_msg = ''a'', lg_attrs = None\<rparr>,
      \<lparr>lg_id = 2, lg_ts = 60, lg_level = ''WARN'', lg_msg = ''b'', lg_attrs = None\<rparr>,
      \<lparr>lg_id = 3, lg_ts = 70, lg_level = ''WARN'', lg_msg = ''c'', lg_attrs = None\<rparr>]\<rparr>, w_logs = []\<rparr>"


text \<open>C28: Clearing the logs. A request from another origin is refused with 403 before anything
  is touched. Else, if the statement is acknowledged, exactly the rows older than the window
  go, all of them when no window is given, and any unknown window counts as 24 hours; the
  secrets and their events stay.\<close>

theorem clear_logs_effect:
  assumes "rs_status rw = None" "c_out (ae_delete q) = Applied"
    and "olderThan = form_value r ''older_than''"
    and "window = (if olderThan = ''1h'' then ''1 hour'' else if olderThan = ''6h'' then ''6 hours''
      else if olderThan = ''7d'' then ''7 days'' else ''24 hours'')"
  shows "if sameOrigin (we_uc env) parseHost r
    then w_db (hres_world (clearLogs exec extText parseHost env a q r w rw)) =
      (w_db w)\<lparr>app_logs := filter (\<lambda>l. olderThan \<noteq> [] \<and> we_ago env window (c_now (ae_delete q)) \<le> lg_ts l)
        (app_logs (w_db w))\<rparr>
    else hres_world (clearLogs exec extText parseHost env a q r w rw) = w \<and>
      status_of (hres_response (clearLogs exec extText parseHost env a q r w rw)) = 403"
  using assms
  by (simp add: clearLogs_db exec_stmt_Applied clear_statement_effect not_less windowToInterval_def)
    (simp add: clearLogs_def status_simps)

definition demo_clear :: request where
  "demo_clear = demo_get\<lparr>rq_method := ''POST'', rq_query := [(''older_than'', ''6h'')]\<rparr>"

theorem clear_logs_effect_witness:
  "map lg_id (app_logs (w_db (hres_world (clearLogs (\<lambda>_ _. ([], None)) (\<lambda>_. []) Some demo_web demo_admin
     \<lparr>ae_delete = acked 115, ae_logs = \<lparr>le_count = demo_query, le_rows = demo_query\<rparr>\<rparr>
     demo_clear demo_logs new_response)))) = [3]"
proof -
  have "sameOrigin (we_uc demo_web) Some demo_clear"
    by (simp add: sameOrigin_def demo_clear_def demo_get_def get_first_def)
  moreover have "form_value demo_clear ''older_than'' = ''6h''"
    by (simp add: form_value_def demo_clear_def demo_get_def get_first_def)
  ultimately show ?thesis
    using clear_logs_effect [OF demo_simps(1) _ refl refl,
        of "\<lparr>ae_delete = acked 115, ae_logs = \<lparr>le_count = demo_query, le_rows = demo_query\<rparr>\<rparr>"
          demo_web Some demo_clear "\<lambda>_ _. ([], None)" "\<lambda>_. []" demo_admin demo_logs]
    by (simp add: acked_def) (simp add: demo_web_def demo_logs_def)
qed

text \<open>Every type is reported once, so the order of the groups does not matter.\<close>

lemma fold_stats:
  "distinct tys \<Longrightarrow> fold add_stat (map (\<lambda>ty. (ty, f ty)) tys) (c, r, e) =
    (if ''created'' \<in> set tys then f ''created'' else c,
     if ''retrieved'' \<in> set tys then f ''retrieved'' else r,
     if ''expired'' \<in> set tys then f ''expired'' else e)"
  by (induction tys arbitrary: c r e) auto

lemma total_absent: "ty \<notin> ev_type ` set (secret_events db) \<Longrightarrow> total ty db = 0"
proof -
  assume "ty \<notin> ev_type ` set (secret_events db)"
  hence "filter (\<lambda>e. ev_type e = ty) (secret_events db) = []" by (auto simp: filter_empty_conv)
  thus ?thesis by (simp add: total_def)
qed

lemma stats_totals:
  assumes "qe_err q = None" "qe_break q = None" "\<And>xs. mset (arrange xs) = mset xs"
  shows "fst (querySecretStats arrange q w) =
    (total ''created'' (w_db w), total ''retrieved'' (w_db w), total ''expired'' (w_db w))"
proof -
  let ?tys = "remdups (map ev_type (secret_events (w_db w)))"
  have "mset (arrange ?tys) = mset ?tys" by (rule assms(3))
  hence "set (arrange ?tys) = set ?tys" "distinct (arrange ?tys)"
    by (metis set_mset_mset, metis distinct_remdups mset_eq_imp_distinct_iff)
  thus ?thesis
    using assms(1,2) total_absent [of _ "w_db w"]
    by (simp add: querySecretStats_def delivered_def sql_event_sums_def fold_stats)
qed


definition demo_counted :: world where
  "demo_counted = \<lparr>w_db = run_ops id [OpStore (ce_store demo_create_env) ''00''
      \<lparr>ci_ciphertext = [1], ci_nonce = [2], ci_expires_in = 0\<rparr>] empty_db, w_logs = []\<rparr>"


text \<open>
  The page number is not bounded, and the offset is computed in int64: the page after 2^64 / 50
  shows the rows from 34 on instead of none, and page 2^63 / 50 has a negative offset, so that it
  is empty, yet says that there is more.
\<close>

lemma huge_pages_wrap:
  "page_of (itoa 368934881474191033) = 368934881474191033"
  "sql_page (wrap64 (368934881474191033 * page_size)) ls = take 50 (drop 34 ls)"
  "sql_page (wrap64 (184467440737095517 * page_size)) ls = []"
  "pd_has_more (logs_partial ([], int n) 184467440737095517 level window)"
proof -
  show "page_of (itoa 368934881474191033) = 368934881474191033"
    by (simp add: page_of_def parse_int64_itoa in_int64_def)
  have "wrap64 (368934881474191033 * page_size) = 34" by (simp add: wrap64_def page_size_def)
  thus "sql_page (wrap64 (368934881474191033 * page_size)) ls = take 50 (drop 34 ls)"
    by (simp add: sql_page_def page_size_def)
  have "wrap64 (184467440737095517 * page_size) < 0" by (simp add: wrap64_def page_size_def)
  thus "sql_page (wrap64 (184467440737095517 * page_size)) ls = []"
    by (simp add: sql_page_def)
  have "wrap64 (wrap64 (184467440737095517 + 1) * page_size) < 0" by (simp add: wrap64_def page_size_def)
  thus "pd_has_more (logs_partial ([], int n) 184467440737095517 level window)"
    by (simp add: logs_partial_def)
qed

text \<open>C39: The CSRF guard. Without Origin and Referer a request passes. An Origin whose host (ASCII)
  differs from the request's, with and without its port, is refused. But the port of the
  Origin does not count: any port on the request's host name passes, not only a default one.\<close>

theorem same_origin_decision:
  assumes "header_get r ''Origin'' = origin" "origin \<noteq> []" "parseHost origin = Some host"
    and "ascii host" "ascii (rq_host r)"
    and "header_get r0 ''Origin'' = []" "header_get r0 ''Referer'' = []"
  shows "sameOrigin uc parseHost r0 \<and>
    (sameOrigin uc parseHost r \<longleftrightarrow>
      map lower_char host = map lower_char (rq_host r) \<or>
      map lower_char (hostname host) = map lower_char (rq_host r)) \<and>
    (\<forall>h port. host = h @ CHR '':'' # port \<and> list_all is_digit port \<and> CHR '']'' \<notin> set h \<and>
        map lower_char h = map lower_char (rq_host r) \<longrightarrow> sameOrigin uc parseHost r)"
proof -
  have "ascii (hostname host)" using assms(4) by (rule ascii_hostname)
  hence same: "sameOrigin uc parseHost r \<longleftrightarrow>
      map lower_char host = map lower_char (rq_host r) \<or>
      map lower_char (hostname host) = map lower_char (rq_host r)"
    using assms(1-5) by (simp add: sameOrigin_def origin_check_def equalFold_ascii)
  moreover have "sameOrigin uc parseHost r0" using assms(6,7) by (simp add: sameOrigin_def)
  ultimately show ?thesis by (auto simp: hostname_port)
qed

definition demo_cross :: request where
  "demo_cross = demo_get\<lparr>rq_method := ''POST'', rq_host := ''h'', rq_headers := [(''Origin'', ''http://h:81'')]\<rparr>"

theorem same_origin_decision_witness:
  "sameOrigin plain_tables [''http://h:81'' \<mapsto> ''h:81''] demo_cross"
proof -
  have r: "header_get demo_cross ''Origin'' = ''http://h:81''" "rq_host demo_cross = ''h''"
    "header_get demo_get ''Origin'' = []" "header_get demo_get ''Referer'' = []"
    by (simp_all add: demo_cross_def demo_get_def get_first_def)
  have "''h:81'' = ''h'' @ CHR '':'' # ''81'' \<and> list_all is_digit ''81'' \<and> CHR '']'' \<notin> set ''h'' \<and>
      map lower_char ''h'' = map lower_char (rq_host demo_cross) \<longrightarrow>
      sameOrigin plain_tables [''http://h:81'' \<mapsto> ''h:81''] demo_cross"
    by (rule same_origin_decision [OF r(1) _ _ _ _ r(3,4), THEN conjunct2, THEN conjunct2,
          THEN spec, THEN spec]) (simp_all add: r(2))
  thus ?thesis by (simp add: r(2) is_digit_def)
qed

end
