(* ===== verification/RateLimit.thy ===== *)
theory RateLimit
  imports Complex_Main Http
begin

text \<open>
  internal/handler/ratelimit.go: the per-address token buckets of one route tier. The
  bucket itself is golang.org/x/time/rate, outside the repository: its constructor \<open>newL\<close>
  and its \<open>allow\<close> at a time are arguments, and so is \<open>parseIP\<close>, which stands for
  net.ParseIP followed by IP.String (\<open>None\<close> for an unparsable address). The map of
  limiters is a HOL map; the rate per second is exact (the code compares it with zero only).
\<close>

section \<open>State\<close>

record 'l ip_limiter =
  il_limiter :: 'l
  il_last :: gotime

record 'l rate_limiter =
  rl_limiters :: "string \<Rightarrow> 'l ip_limiter option"
  rl_rate :: rat
  rl_burst :: int
  rl_perMinute :: int
  rl_trustProxy :: bool
  rl_proxies :: int

definition newRateLimiter :: "int \<Rightarrow> int \<Rightarrow> bool \<Rightarrow> int \<Rightarrow> 'l rate_limiter" where
  "newRateLimiter perMinute burst trust proxies =
     \<lparr>rl_limiters = Map.empty, rl_rate = of_int perMinute / 60, rl_burst = burst,
      rl_perMinute = perMinute, rl_trustProxy = trust, rl_proxies = proxies\<rparr>"

section \<open>The client's address\<close>

text \<open>net.SplitHostPort, host part; \<open>None\<close> where it returns an error.\<close>

definition splitHost :: "string \<Rightarrow> string option" where
  "splitHost hp =
     (case last_colon hp of
        None \<Rightarrow> None
      | Some i \<Rightarrow>
          if hasPrefix hp ''['' then
            (case index_of (CHR '']'') hp of
               None \<Rightarrow> None
             | Some e \<Rightarrow>
                 if Suc e \<noteq> i then None
                 else if CHR ''['' \<in> set (drop 1 hp) \<or> CHR '']'' \<in> set (drop (Suc e) hp) then None
                 else Some (take (e - 1) (drop 1 hp)))
          else if CHR '':'' \<in> set (take i hp) then None
          else if CHR ''['' \<in> set hp \<or> CHR '']'' \<in> set hp then None
          else Some (take i hp))"

definition xff_index :: "int \<Rightarrow> nat \<Rightarrow> int" where
  "xff_index proxies n = int n - (if proxies \<le> 0 then 1 else proxies)"

definition forwardedIP ::
    "(string \<Rightarrow> string option) \<Rightarrow> int \<Rightarrow> string \<Rightarrow> string option" where
  "forwardedIP parseIP proxies xff =
     (let parts = split_on (CHR '','') xff; idx = xff_index proxies (length parts) in
      if xff = [] \<or> idx < 0 then None else parseIP (trimSpace (parts ! nat idx)))"

definition clientIP ::
    "(string \<Rightarrow> string option) \<Rightarrow> 'l rate_limiter \<Rightarrow> request \<Rightarrow> string" where
  "clientIP parseIP rl r =
     (case (if rl_trustProxy rl
            then forwardedIP parseIP (rl_proxies rl) (header_get r ''X-Forwarded-For'')
            else None) of
        Some ip \<Rightarrow> ip
      | None \<Rightarrow> (case splitHost (rq_remote r) of None \<Rightarrow> rq_remote r | Some ip \<Rightarrow> ip))"

section \<open>Buckets per address\<close>

definition getLimiter ::
    "(rat \<Rightarrow> int \<Rightarrow> 'l) \<Rightarrow> gotime \<Rightarrow> string \<Rightarrow> 'l rate_limiter \<Rightarrow> 'l rate_limiter \<times> 'l" where
  "getLimiter newL now ip rl =
     (let l = (case rl_limiters rl ip of
                 Some e \<Rightarrow> il_limiter e
               | None \<Rightarrow> newL (rl_rate rl) (rl_burst rl))
      in (rl\<lparr>rl_limiters := (rl_limiters rl)(ip \<mapsto> \<lparr>il_limiter = l, il_last = now\<rparr>)\<rparr>, l))"

text \<open>limiter.Allow() changes the bucket that the map points to.\<close>

definition take_token ::
    "(rat \<Rightarrow> int \<Rightarrow> 'l) \<Rightarrow> (gotime \<Rightarrow> 'l \<Rightarrow> 'l \<times> bool) \<Rightarrow> gotime \<Rightarrow> string \<Rightarrow> 'l rate_limiter \<Rightarrow>
     'l rate_limiter \<times> bool" where
  "take_token newL allow now ip rl =
     (case getLimiter newL now ip rl of
        (rl1, l) \<Rightarrow>
          (case allow now l of
             (l', ok) \<Rightarrow>
               (rl1\<lparr>rl_limiters := (rl_limiters rl1)(ip \<mapsto> \<lparr>il_limiter = l', il_last = now\<rparr>)\<rparr>, ok)))"

definition idle_limit :: gotime where "idle_limit = 600000000000"

text \<open>One tick of the cleanup goroutine.\<close>

definition evict :: "gotime \<Rightarrow> 'l rate_limiter \<Rightarrow> 'l rate_limiter" where
  "evict now rl =
     rl\<lparr>rl_limiters := (\<lambda>ip.
        case rl_limiters rl ip of
          Some e \<Rightarrow> if il_last e < now - idle_limit then None else Some e
        | None \<Rightarrow> None)\<rparr>"

definition retryAfterSeconds :: "int \<Rightarrow> string" where
  "retryAfterSeconds perMinute = itoa (quot64 60 (max perMinute 1))"

section \<open>The middleware\<close>

text \<open>
  Limit, for the limiter that \<open>get\<close> and \<open>put\<close> find in the state. A zero rate passes every
  request on.
\<close>

definition limit ::
    "(rat \<Rightarrow> int \<Rightarrow> 'l) \<Rightarrow> (gotime \<Rightarrow> 'l \<Rightarrow> 'l \<times> bool) \<Rightarrow> (string \<Rightarrow> string option) \<Rightarrow>
     ('a world_scheme \<Rightarrow> 'l rate_limiter) \<Rightarrow>
     ('l rate_limiter \<Rightarrow> 'a world_scheme \<Rightarrow> 'a world_scheme) \<Rightarrow>
     gotime \<Rightarrow> 'a world_scheme handler \<Rightarrow> 'a world_scheme handler" where
  "limit newL allow parseIP get put now next = (\<lambda>r w rw.
     if rl_rate (get w) = 0 then next r w rw
     else
       (let ip = clientIP parseIP (get w) r in
        case take_token newL allow now ip (get w) of
          (rl', ok) \<Rightarrow>
            if ok then next r (put rl' w) rw
            else
              Done (log_at levelWarn ''rate limit exceeded''
                     [str_attr ''ip'' ip, str_attr ''path'' (rq_path r),
                      str_attr ''method'' (rq_method r)] (put rl' w))
                   (http_error ''too many requests'' 429
                     (set_header ''Retry-After'' (retryAfterSeconds (rl_perMinute (get w))) rw))))"

section \<open>A history of requests and clean-up ticks\<close>

datatype lim_event = Ask (ev_time: gotime) string | Tick (ev_time: gotime)

fun run_events ::
    "(rat \<Rightarrow> int \<Rightarrow> 'l) \<Rightarrow> (gotime \<Rightarrow> 'l \<Rightarrow> 'l \<times> bool) \<Rightarrow> lim_event list \<Rightarrow>
     'l rate_limiter \<Rightarrow> (string \<times> bool) list" where
  "run_events newL allow [] rl = []"
| "run_events newL allow (Ask t ip # evs) rl =
     (case take_token newL allow t ip rl of
        (rl', ok) \<Rightarrow> (ip, ok) # run_events newL allow evs rl')"
| "run_events newL allow (Tick t # evs) rl = run_events newL allow evs (evict t rl)"

fun asks_of :: "string \<Rightarrow> lim_event list \<Rightarrow> gotime list" where
  "asks_of ip [] = []"
| "asks_of ip (Ask t ip' # evs) = (if ip' = ip then t # asks_of ip evs else asks_of ip evs)"
| "asks_of ip (Tick t # evs) = asks_of ip evs"

text \<open>One bucket of its own, asked at the given times: its answers and its final state.\<close>

fun answers :: "(gotime \<Rightarrow> 'l \<Rightarrow> 'l \<times> bool) \<Rightarrow> 'l \<Rightarrow> gotime list \<Rightarrow> bool list" where
  "answers allow l [] = []"
| "answers allow l (t # ts) = snd (allow t l) # answers allow (fst (allow t l)) ts"

definition asked :: "(gotime \<Rightarrow> 'l \<Rightarrow> 'l \<times> bool) \<Rightarrow> 'l \<Rightarrow> gotime list \<Rightarrow> 'l" where
  "asked allow l ts = fold (\<lambda>t l. fst (allow t l)) ts l"

text \<open>
  The documented behaviour of rate.Limiter that the eviction relies on: a bucket of size \<open>b\<close>
  starts full and refills at \<open>r\<close> tokens per second, so once enough time has passed since it
  was last asked for \<open>b\<close> tokens to flow in, it is as good as new.
\<close>

definition token_bucket ::
    "(rat \<Rightarrow> int \<Rightarrow> 'l) \<Rightarrow> (gotime \<Rightarrow> 'l \<Rightarrow> 'l \<times> bool) \<Rightarrow> bool" where
  "token_bucket newL allow \<longleftrightarrow>
     (\<forall>r b ts now. 0 < r \<longrightarrow> 0 < b \<longrightarrow> ts \<noteq> [] \<longrightarrow> sorted (ts @ [now]) \<longrightarrow>
        of_int b \<le> r * of_int (now - last ts) / 1000000000 \<longrightarrow>
        allow now (asked allow (newL r b) ts) = allow now (newL r b))"

lemma asked_append: "asked allow l (ts @ [t]) = fst (allow t (asked allow l ts))"
  by (simp add: asked_def)

definition tracks ::
    "(rat \<Rightarrow> int \<Rightarrow> 'l) \<Rightarrow> (gotime \<Rightarrow> 'l \<Rightarrow> 'l \<times> bool) \<Rightarrow> string \<Rightarrow> gotime list \<Rightarrow> gotime \<Rightarrow>
     'l rate_limiter \<Rightarrow> bool" where
  "tracks newL allow ip ts now rl \<longleftrightarrow>
     (case rl_limiters rl ip of
        Some e \<Rightarrow> ts \<noteq> [] \<and> il_limiter e = asked allow (newL (rl_rate rl) (rl_burst rl)) ts \<and>
          il_last e = last ts
      | None \<Rightarrow> ts = [] \<or> last ts < now - idle_limit)"

lemma tracks_evict: "tracks newL allow ip ts now rl \<Longrightarrow> now \<le> t \<Longrightarrow> tracks newL allow ip ts t (evict t rl)"
  by (fastforce simp: tracks_def evict_def split: option.splits)

lemma take_token_frame [frame_simps]:
  "take_token newL allow t ip rl = (rl', ok) \<Longrightarrow>
   rl_rate rl' = rl_rate rl \<and> rl_burst rl' = rl_burst rl \<and> rl_perMinute rl' = rl_perMinute rl"
  by (auto simp: take_token_def getLimiter_def Let_def split: prod.splits)

lemma tracks_other:
  "tracks newL allow ip ts now rl \<Longrightarrow> now \<le> t \<Longrightarrow> ip' \<noteq> ip \<Longrightarrow>
   take_token newL allow t ip' rl = (rl', ok) \<Longrightarrow> tracks newL allow ip ts t rl'"
  by (fastforce simp: tracks_def take_token_def getLimiter_def Let_def
      split: option.splits prod.splits)

definition refills_in_time :: "'l rate_limiter \<Rightarrow> bool" where
  "refills_in_time rl \<longleftrightarrow> 0 < rl_rate rl \<and> 0 < rl_burst rl \<and> of_int (rl_burst rl) \<le> 600 * rl_rate rl"

lemma idle_refill:
  assumes "refills_in_time rl" "last ts < now - idle_limit"
  shows "of_int (rl_burst rl) \<le> rl_rate rl * of_int (now - last ts) / 1000000000"
proof -
  define x :: rat where "x = of_int (now - last ts)"
  have "600000000000 \<le> now - last ts" using assms(2) by (simp add: idle_limit_def)
  hence "of_int 600000000000 \<le> x" unfolding x_def by (simp only: of_int_le_iff)
  hence "rl_rate rl * 600000000000 \<le> rl_rate rl * x"
    using assms(1) by (intro mult_left_mono) (simp_all add: refills_in_time_def)
  moreover have "of_int (rl_burst rl) \<le> 600 * rl_rate rl"
    using assms(1) by (simp add: refills_in_time_def)
  ultimately show ?thesis unfolding x_def [symmetric] by linarith
qed

lemma tracks_same:
  assumes tb: "token_bucket newL allow" and r: "refills_in_time rl"
    and tr: "tracks newL allow ip ts now rl" and s: "sorted (ts @ [t])" and le: "now \<le> t"
    and tk: "take_token newL allow t ip rl = (rl', ok)"
  shows "ok = snd (allow t (asked allow (newL (rl_rate rl) (rl_burst rl)) ts)) \<and>
    tracks newL allow ip (ts @ [t]) t rl'"
proof -
  let ?new = "newL (rl_rate rl) (rl_burst rl)"
  define l where "l = (case rl_limiters rl ip of Some e \<Rightarrow> il_limiter e | None \<Rightarrow> ?new)"
  have same: "allow t l = allow t (asked allow ?new ts)"
  proof (cases "rl_limiters rl ip")
    case None
    hence "ts = [] \<or> last ts < t - idle_limit" using tr le by (auto simp: tracks_def)
    thus ?thesis
    proof
      assume "last ts < t - idle_limit"
      from idle_refill [OF r this] show ?thesis
        using tb r s None by (cases "ts = []") (auto simp: token_bucket_def refills_in_time_def l_def asked_def)
    qed (simp add: l_def None asked_def)
  qed (use tr in \<open>simp add: l_def tracks_def\<close>)
  show ?thesis
    using tk unfolding take_token_def getLimiter_def Let_def l_def [symmetric]
    by (auto simp: tracks_def asked_append same split: prod.splits)
qed

lemma run_events_tracks:
  assumes tb: "token_bucket newL allow"
  shows "refills_in_time rl \<Longrightarrow> tracks newL allow ip ts now rl \<Longrightarrow> sorted ts \<Longrightarrow>
    ts = [] \<or> last ts \<le> now \<Longrightarrow> sorted (now # map ev_time evs) \<Longrightarrow>
    [ok. (ip', ok) \<leftarrow> run_events newL allow evs rl, ip' = ip] =
      answers allow (asked allow (newL (rl_rate rl) (rl_burst rl)) ts) (asks_of ip evs)"
proof (induction evs arbitrary: ts now rl)
  case (Cons e evs)
  show ?case
  proof (cases e)
    case (Tick t)
    have "refills_in_time (evict t rl)" "rl_rate (evict t rl) = rl_rate rl"
        "rl_burst (evict t rl) = rl_burst rl"
      using Cons.prems(1) by (simp_all add: evict_def refills_in_time_def)
    with Cons.IH [of "evict t rl" ts t] Cons.prems Tick show ?thesis
      by (fastforce intro: tracks_evict)
  next
    case (Ask t ip')
    obtain rl' ok where tk: "take_token newL allow t ip' rl = (rl', ok)" by fastforce
    note fr = take_token_frame [OF tk]
    have r': "refills_in_time rl'" using Cons.prems(1) fr by (simp add: refills_in_time_def)
    have le: "now \<le> t" "sorted (t # map ev_time evs)" using Cons.prems(5) Ask by auto
    show ?thesis
    proof (cases "ip' = ip")
      case False
      with Cons.IH [OF r' tracks_other [OF Cons.prems(2) le(1) False tk] Cons.prems(3) _ le(2)]
        Cons.prems(4) le fr Ask tk show ?thesis by fastforce
    next
      case True
      have srt: "sorted (ts @ [t])"
        using Cons.prems(3,4) le(1) by (cases ts rule: rev_cases) (auto simp: sorted_append)
      from tracks_same [OF tb Cons.prems(1,2) srt le(1)] tk True
      have "ok = snd (allow t (asked allow (newL (rl_rate rl) (rl_burst rl)) ts))"
        "tracks newL allow ip (ts @ [t]) t rl'" by auto
      with Cons.IH [OF r' this(2) srt _ le(2)] fr Ask tk True show ?thesis
        by (simp add: asked_append)
    qed
  qed
qed simp

section \<open>An exact bucket\<close>

text \<open>
  The documented bucket computed exactly, as an instance of the parameter: tokens, refill
  rate per second, size, and the time of the last request.
\<close>

type_synonym exact_bucket = "rat \<times> rat \<times> int \<times> gotime option"

definition exact_new :: "rat \<Rightarrow> int \<Rightarrow> exact_bucket" where
  "exact_new r b = (of_int b, r, b, None)"

fun exact_allow :: "gotime \<Rightarrow> exact_bucket \<Rightarrow> exact_bucket \<times> bool" where
  "exact_allow now (n, r, b, t0) =
     (let m = min (of_int b)
                (n + (case t0 of None \<Rightarrow> 0 | Some t \<Rightarrow> r * of_int (now - t) / 1000000000))
      in if 1 \<le> m then ((m - 1, r, b, Some now), True) else ((m, r, b, Some now), False))"

lemma exact_asked:
  "0 < r \<Longrightarrow> 0 < b \<Longrightarrow> sorted ts \<Longrightarrow> ts \<noteq> [] \<Longrightarrow>
   \<exists>n \<ge> 0. asked exact_allow (exact_new r b) ts = (n, r, b, Some (last ts))"
proof (induction ts rule: rev_induct)
  case (snoc t ts)
  show ?case
  proof (cases "ts = []")
    case False
    with snoc obtain n where n: "n \<ge> 0" "asked exact_allow (exact_new r b) ts = (n, r, b, Some (last ts))"
      by (auto simp: sorted_append)
    have "0 \<le> r * of_int (t - last ts)"
      using snoc.prems False by (intro mult_nonneg_nonneg) (auto simp: sorted_append)
    with n snoc.prems show ?thesis by (auto simp: asked_append Let_def)
  qed (use snoc.prems in \<open>auto simp: asked_def exact_new_def Let_def\<close>)
qed simp

lemma exact_token_bucket: "token_bucket exact_new exact_allow"
  unfolding token_bucket_def
proof (intro allI impI)
  fix r :: rat and b :: int and ts :: "gotime list" and now
  assume *: "0 < r" "0 < b" "ts \<noteq> []" "sorted (ts @ [now])"
    "of_int b \<le> r * of_int (now - last ts) / 1000000000"
  from * exact_asked [of r b ts] obtain n
    where "n \<ge> 0" "asked exact_allow (exact_new r b) ts = (n, r, b, Some (last ts))"
    by (auto simp: sorted_append)
  with * show "exact_allow now (asked exact_allow (exact_new r b) ts) = exact_allow now (exact_new r b)"
    by (simp add: exact_new_def min_absorb1)
qed

lemma split_on_parts:
  assumes "\<forall>h \<in> set (hop # hops). sep \<notin> set h"
  shows "split_on sep (hop @ concat (map ((#) sep) hops)) = hop # hops"
  using assms
proof (induction hops arbitrary: hop)
  case (Cons h hops)
  then show ?case by (simp add: split_on_append split_on_no_sep)
qed (simp add: split_on_no_sep)

section \<open>The rate that is let through\<close>

text \<open>
  The documented limit of rate.Limiter: between two requests a time \<open>d\<close> apart, both included, at
  most \<open>b + r d\<close> are allowed, whatever was asked before.
\<close>

definition rate_law ::
    "(rat \<Rightarrow> int \<Rightarrow> 'l) \<Rightarrow> (gotime \<Rightarrow> 'l \<Rightarrow> 'l \<times> bool) \<Rightarrow> bool" where
  "rate_law newL allow \<longleftrightarrow>
     (\<forall>r b xs ys. 0 < r \<longrightarrow> 0 < b \<longrightarrow> sorted (xs @ ys) \<longrightarrow> ys \<noteq> [] \<longrightarrow>
        of_nat (length (filter id (answers allow (asked allow (newL r b) xs) ys)))
          \<le> of_int b + r * of_int (last ys - hd ys) / 1000000000)"

lemma answers_append: "answers allow l (xs @ ys) = answers allow l xs @ answers allow (asked allow l xs) ys"
  by (induction xs arbitrary: l) (simp_all add: asked_def)

lemma length_answers: "length (answers allow l ts) = length ts"
  by (induction ts arbitrary: l) simp_all

lemma asks_append: "asks_of ip (evs @ evs') = asks_of ip evs @ asks_of ip evs'"
  by (induction ip evs rule: asks_of.induct) simp_all

lemma sorted_asks: "sorted (map ev_time evs) \<Longrightarrow> sorted (asks_of ip evs)"
proof -
  have "set (asks_of ip evs) \<subseteq> ev_time ` set evs" for evs
    by (induction ip evs rule: asks_of.induct) auto
  thus "sorted (map ev_time evs) \<Longrightarrow> sorted (asks_of ip evs)"
    by (induction ip evs rule: asks_of.induct) auto
qed

text \<open>The tokens of an exact bucket and the requests it allowed are paid for by the refill.\<close>

lemma exact_count:
  assumes "0 < r" "0 < b"
  shows "0 \<le> n \<Longrightarrow> sorted (t # ts) \<Longrightarrow>
    of_nat (length (filter id (answers exact_allow (n, r, b, Some t) ts)))
      \<le> n + r * of_int (last (t # ts) - t) / 1000000000"
proof (induction ts arbitrary: n t)
  case (Cons t' ts)
  define d where "d = r * of_int (t' - t) / 1000000000"
  define m where "m = min (of_int b) (n + d)"
  define m' where "m' = (if 1 \<le> m then m - 1 else m)"
  have "t \<le> t'" and srt: "sorted (t' # ts)" using Cons.prems(2) by auto
  hence "0 \<le> d" using assms(1) by (simp add: d_def)
  hence m: "0 \<le> m'" "m \<le> n + d" using Cons.prems(1) assms(2) by (auto simp: m_def m'_def)
  have step: "answers exact_allow (n, r, b, Some t) (t' # ts) =
      (1 \<le> m) # answers exact_allow (m', r, b, Some t') ts"
    by (simp add: Let_def m'_def m_def d_def)
  have "r * of_int (last (t' # ts) - t') / 1000000000 + d = r * of_int (last (t # t' # ts) - t) / 1000000000"
    by (simp add: d_def algebra_simps diff_divide_distrib add_divide_distrib)
  with Cons.IH [OF m(1) srt] m(2) show ?case
    unfolding step by (cases "1 \<le> m") (simp_all add: m'_def)
qed simp

lemma exact_rate_law: "rate_law exact_new exact_allow"
  unfolding rate_law_def
proof (intro allI impI)
  fix r :: rat and b :: int and xs ys :: "gotime list"
  assume *: "0 < r" "0 < b" "sorted (xs @ ys)" "ys \<noteq> []"
  obtain y ys' where ys: "ys = y # ys'" using *(4) by (cases ys) auto
  define m :: rat where "m = (case asked exact_allow (exact_new r b) xs of (n, _, _, t0) \<Rightarrow>
    min (of_int b) (n + (case t0 of None \<Rightarrow> 0 | Some t \<Rightarrow> r * of_int (y - t) / 1000000000)))"
  define m' where "m' = (if 1 \<le> m then m - 1 else m)"
  have "0 \<le> m \<and> m \<le> of_int b \<and> answers exact_allow (asked exact_allow (exact_new r b) xs) ys =
      (1 \<le> m) # answers exact_allow (m', r, b, Some y) ys'"
  proof (cases "xs = []")
    case True
    with *(2) show ?thesis by (simp add: ys m_def m'_def asked_def exact_new_def Let_def)
  next
    case False
    with exact_asked [of r b xs] * obtain n
      where n: "0 \<le> n" "asked exact_allow (exact_new r b) xs = (n, r, b, Some (last xs))"
      by (auto simp: sorted_append)
    have "last xs \<le> y" using *(3) ys False by (auto simp: sorted_append)
    hence "0 \<le> r * of_int (y - last xs) / 1000000000" using *(1) by simp
    with n *(2) show ?thesis by (simp add: ys m_def m'_def Let_def)
  qed
  moreover have "0 \<le> m'" using calculation by (simp add: m'_def)
  moreover have "sorted (y # ys')" using *(3) ys by (simp add: sorted_append)
  ultimately show "of_nat (length (filter id (answers exact_allow (asked exact_allow (exact_new r b) xs) ys)))
      \<le> of_int b + r * of_int (last ys - hd ys) / 1000000000"
    using exact_count [OF *(1,2), of m' y ys'] by (auto simp: ys m'_def split: if_splits)
qed

lemma own_bucket:
  assumes "token_bucket newL allow" "0 < perMinute" "0 < burst" "burst \<le> 10 * perMinute"
    and "sorted (map ev_time evs)"
  shows "[ok. (ip', ok) \<leftarrow> run_events newL allow evs (newRateLimiter perMinute burst trust proxies),
              ip' = ip] =
    answers allow (newL (of_int perMinute / 60) burst) (asks_of ip evs)"
proof -
  let ?rl = "newRateLimiter perMinute burst trust proxies"
  have "of_int burst \<le> (of_int (10 * perMinute) :: rat)" using assms(4) by (simp only: of_int_le_iff)
  hence r: "refills_in_time ?rl"
    using assms(2,3) by (simp add: refills_in_time_def newRateLimiter_def)
  have "\<exists>now. sorted (now # map ev_time evs)"
    using assms(5) by (cases evs) (auto intro: exI [of _ "ev_time (hd evs)"])
  then obtain now where "sorted (now # map ev_time evs)" by blast
  from run_events_tracks [OF assms(1) r _ _ _ this, of ip "[]"]
  show ?thesis by (simp add: tracks_def newRateLimiter_def asked_def)
qed

section \<open>Properties\<close>

text \<open>C11: One bucket per address, eviction unobservable. With a sustained rate of at least one
  request per minute and a burst of at most ten times that, the answers an address gets are
  those of a single token bucket asked only by that address: neither the requests of other
  addresses nor any clean-up tick in between changes one of them.\<close>

theorem bucket_per_address:
  assumes "token_bucket newL allow" "0 < perMinute" "0 < burst" "burst \<le> 10 * perMinute"
    and "sorted (map ev_time evs)"
  shows "[ok. (ip', ok) \<leftarrow> run_events newL allow evs (newRateLimiter perMinute burst trust proxies),
              ip' = ip] =
    answers allow (newL (of_int perMinute / 60) burst) (asks_of ip evs)"
  by (rule own_bucket [OF assms])

definition demo_events :: "lim_event list" where
  "demo_events = [Ask 0 ''a'', Ask 1 ''b'', Ask 2 ''a'', Ask 3 ''a'', Ask 4 ''a'', Tick 5,
     Tick 600000000005, Ask 600000000006 ''a'']"

theorem bucket_per_address_witness:
  "[ok. (ip, ok) \<leftarrow> run_events exact_new exact_allow demo_events (newRateLimiter 1 3 True 1), ip = ''a''] =
   [True, True, True, False, True]"
  using bucket_per_address [OF exact_token_bucket, of 1 3 demo_events "''a''" True 1]
  by (simp add: demo_events_def exact_new_def Let_def)

text \<open>C17: The rate that a tier lets through. In any stretch of the history, whatever came before,
  and however evictions and requests of others are mixed in, an address is let through at
  most the burst plus the configured requests per minute times the minutes between its first
  and its last request in the stretch.\<close>

theorem rate_bounded:
  assumes "token_bucket newL allow" "rate_law newL allow"
    and "0 < perMinute" "0 < burst" "burst \<le> 10 * perMinute" "sorted (map ev_time (evs @ evs'))"
    and "ts = asks_of ip evs'" "ts \<noteq> []"
    and "oks = [ok. (ip', ok) \<leftarrow> run_events newL allow (evs @ evs') (newRateLimiter perMinute burst trust proxies),
                    ip' = ip]"
  shows "of_nat (length (filter id (drop (length (asks_of ip evs)) oks)))
    \<le> of_int burst + (of_int perMinute :: rat) * of_int (last ts - hd ts) / 60000000000"
proof -
  let ?new = "newL (of_int perMinute / 60) burst"
  have "oks = answers allow ?new (asks_of ip evs @ ts)"
    unfolding assms(9) own_bucket [OF assms(1,3-6)] asks_append assms(7) ..
  hence drop: "drop (length (asks_of ip evs)) oks = answers allow (asked allow ?new (asks_of ip evs)) ts"
    by (simp add: answers_append length_answers)
  have "sorted (asks_of ip evs @ ts)" "0 < (of_int perMinute / 60 :: rat)"
    using sorted_asks [OF assms(6), of ip] assms(3) by (simp_all add: asks_append assms(7))
  from assms(2) [unfolded rate_law_def, rule_format, OF this(2) assms(4) this(1) assms(8)]
  show ?thesis unfolding drop by simp
qed

theorem rate_bounded_witness:
  "of_nat (length (filter id (drop (length (asks_of ''a'' (take 2 demo_events)))
     [ok. (ip, ok) \<leftarrow> run_events exact_new exact_allow demo_events (newRateLimiter 1 3 True 1), ip = ''a''])))
   \<le> (3 :: rat) + 600000000004 / 60000000000"
  using rate_bounded [OF exact_token_bucket exact_rate_law _ _ _ _ refl _ refl, of 1 3 "take 2 demo_events"
      "drop 2 demo_events" "''a''" True 1]
  by (simp add: demo_events_def)

text \<open>C23: Addresses behind proxies. With k trusted proxies (one when the setting is not
  positive), each of which appends one element to X-Forwarded-For, everything a client puts
  in front of these k elements is ignored: the address is that of the k-th element from the
  right if it parses, and the connection's otherwise. Without the trust setting the header is
  never looked at.\<close>

theorem client_prefix_ignored:
  assumes "header_get r ''X-Forwarded-For'' = spoofed @ CHR '','' # hop @ concat (map ((#) (CHR '','')) hops)"
    and "\<forall>h \<in> set (hop # hops). CHR '','' \<notin> set h"
    and "int (Suc (length hops)) = max 1 (rl_proxies rl)"
  shows "clientIP parseIP rl r =
    (case (if rl_trustProxy rl then parseIP (trimSpace hop) else None) of
       Some ip \<Rightarrow> ip
     | None \<Rightarrow> (case splitHost (rq_remote r) of None \<Rightarrow> rq_remote r | Some ip \<Rightarrow> ip))"
proof -
  have parts: "split_on (CHR '','') (hop @ concat (map ((#) (CHR '','')) hops)) = hop # hops"
    using assms(2) by (rule split_on_parts)
  have idx: "xff_index (rl_proxies rl) (length (split_on (CHR '','') spoofed) + Suc (length hops)) =
      int (length (split_on (CHR '','') spoofed))"
    using assms(3) by (auto simp: xff_index_def max_def split: if_splits)
  show ?thesis
    unfolding clientIP_def forwardedIP_def Let_def assms(1) split_on_append parts
    using idx by (simp add: nth_append)
qed

definition demo_request :: request where
  "demo_request = \<lparr>rq_method = ''POST'', rq_path = ''/'', rq_escaped = ''/'', rq_host = ''h'', rq_remote = ''10.0.0.1:99'',
     rq_headers = [(''X-Forwarded-For'', ''9.9.9.9,1.2.3.4'')], rq_query = [], rq_form = [],
     rq_token = [], rq_body = []\<rparr>"

theorem client_prefix_ignored_witness:
  "clientIP Some (newRateLimiter 10 5 True 1) demo_request = ''1.2.3.4''"
proof -
  have h: "header_get demo_request ''X-Forwarded-For'' = ''9.9.9.9'' @ CHR '','' # ''1.2.3.4'' @ concat (map ((#) (CHR '','')) [])"
    by (simp add: demo_request_def get_first_def)
  have t: "trimSpace ''1.2.3.4'' = ''1.2.3.4''"
    by (simp add: trimSpace_def runes_ascii_Cons is_space_rune_def)
  show ?thesis
    by (subst client_prefix_ignored [OF h]) (simp_all add: newRateLimiter_def t)
qed

text \<open>Limit on every branch. With a zero rate the request is passed on untouched. Else the
  request takes a token from the bucket of its address; if it gets one the next handler runs
  on the state with the updated limiter, and if not the next handler does not run: the answer
  is 429 with a Retry-After, one warning is logged and nothing else of the state changes.\<close>

lemma limit_branches:
  assumes "rs_status rw = None"
    and "take_token newL allow now (clientIP parseIP (get w) r) (get w) = (rl', ok)"
  shows "if rl_rate (get w) = 0 then limit newL allow parseIP get put now next r w rw = next r w rw
    else if ok then limit newL allow parseIP get put now next r w rw = next r (put rl' w) rw
    else (\<exists>w' rw'. limit newL allow parseIP get put now next r w rw = Done w' rw' \<and>
      w' = log_at levelWarn ''rate limit exceeded''
        [str_attr ''ip'' (clientIP parseIP (get w) r), str_attr ''path'' (rq_path r),
         str_attr ''method'' (rq_method r)] (put rl' w) \<and>
      status_of rw' = 429 \<and>
      sent_header rw' ''Retry-After'' = Some (itoa (quot64 60 (max 1 (rl_perMinute (get w))))))"
proof -
  have "sent_header (http_error m 429 (set_header ''Retry-After'' v rw)) ''Retry-After'' = Some v" for m v
    using assms(1) by (simp add: sent_header_def finish_def http_error_def)
  moreover have "status_of (http_error m 429 (set_header k v rw)) = 429" for m k v
    using assms(1) by (simp add: status_simps)
  ultimately show ?thesis
    by (simp add: limit_def Let_def assms(2) retryAfterSeconds_def max.commute)
qed

end
