(* ===== verification/Router.thy ===== *)
theory Router
  imports Http
begin

text \<open>
  The routing of cmd/server/main.go: the patterns registered there and the rules by which
  http.ServeMux (Go 1.22 and later) picks one. Matching works on the escaped path, cleaned of empty
  and dot segments; a request whose path is not clean is redirected. A pattern for GET also
  takes HEAD, the more specific pattern wins, and "POST /" takes every other POST.
\<close>

section \<open>Paths\<close>

fun clean_segs :: "string list \<Rightarrow> string list \<Rightarrow> string list" where
  "clean_segs acc [] = rev acc"
| "clean_segs acc (s # ss) =
     (if s = [] \<or> s = ''.'' then clean_segs acc ss
      else if s = ''..'' then clean_segs (List.tl acc) ss
      else clean_segs (s # acc) ss)"

definition cleanPath :: "string \<Rightarrow> string" where
  "cleanPath p =
     (if p = [] then ''/''
      else
        (let p' = (if hd p = CHR ''/'' then p else CHR ''/'' # p);
             np = CHR ''/'' # join_with ''/'' (clean_segs [] (split_on (CHR ''/'') p'))
         in if last p' = CHR ''/'' \<and> np \<noteq> ''/'' then np @ ''/'' else np))"

fun unescape :: "string \<Rightarrow> string option" where
  "unescape [] = Some []"
| "unescape (c # s) =
     (if c = CHR 0x25 then
        (case s of
           a # b # s' \<Rightarrow>
             (case (hex_val a, hex_val b) of
                (Some x, Some y) \<Rightarrow> map_option ((#) (char_of (16 * x + y))) (unescape s')
              | _ \<Rightarrow> None)
         | _ \<Rightarrow> None)
      else map_option ((#) c) (unescape s))"

definition pathUnescape :: "string \<Rightarrow> string" where
  "pathUnescape s = (case unescape s of Some t \<Rightarrow> t | None \<Rightarrow> s)"

text \<open>The segments of a clean path; the trailing slash is a segment of its own.\<close>

definition segments :: "string \<Rightarrow> string list" where
  "segments path = map (\<lambda>s. if s = [] then ''/'' else pathUnescape s) (List.tl (split_on (CHR ''/'') path))"

section \<open>The registered patterns\<close>

datatype route =
    RStatic | RIndex | RCreate | RPage string | RReveal string | RHealth | RHealthLogs | RClearLogs
  | RRedirect | RNotAllowed

fun match_get :: "string list \<Rightarrow> route" where
  "match_get [a] = (if a = ''health'' then RHealth else RIndex)"
| "match_get [a, b] =
     (if a = ''static'' then RStatic
      else if a = ''health'' \<and> b = ''logs'' then RHealthLogs
      else if a = ''s'' \<and> b \<noteq> ''/'' then RPage b
      else RIndex)"
| "match_get (a # b # c # ss) = (if a = ''static'' then RStatic else RIndex)"
| "match_get [] = RIndex"

fun match_post :: "string list \<Rightarrow> route" where
  "match_post [a, b, c] =
     (if a = ''s'' \<and> b \<noteq> ''/'' \<and> c = ''reveal'' then RReveal b
      else if a = ''health'' \<and> b = ''logs'' \<and> c = ''clear'' then RClearLogs
      else RCreate)"
| "match_post ss = RCreate"

definition route_of :: "request \<Rightarrow> route" where
  "route_of r =
     (let path = (if rq_method r = ''CONNECT'' then rq_escaped r else cleanPath (rq_escaped r));
          get = (rq_method r = ''GET'' \<or> rq_method r = ''HEAD'')
      in if get \<and> segments path = [''static''] then RRedirect
         else if path \<noteq> rq_escaped r then RRedirect
         else if get then match_get (segments path)
         else if rq_method r = ''POST'' then match_post (segments path)
         else RNotAllowed)"

section \<open>The answers of the router itself\<close>

definition redirect :: "(request \<Rightarrow> string \<times> string) \<Rightarrow> 'w handler" where
  "redirect target = (\<lambda>r w rw.
     case target r of
       (location, page) \<Rightarrow>
         (let get = (rq_method r = ''GET'' \<or> rq_method r = ''HEAD'');
              rw1 = set_header ''Location'' location rw;
              rw2 = write_header 301
                (if get then set_header ''Content-Type'' ''text/html; charset=utf-8'' rw1 else rw1)
          in Done w (if rq_method r = ''GET'' then write_body page rw2 else rw2)))"

definition not_allowed :: "'w handler" where
  "not_allowed = (\<lambda>r w rw.
     Done w (http_error ''Method Not Allowed'' 405 (set_header ''Allow'' ''GET, HEAD, POST'' rw)))"

section \<open>Lemmas\<close>

lemma unescape_plain: "CHR 0x25 \<notin> set s \<Longrightarrow> unescape s = Some s"
  by (induction s) auto

lemma clean_segs_plain:
  "list_all (\<lambda>s. s \<noteq> [] \<and> s \<noteq> ''.'' \<and> s \<noteq> ''..'') ss \<Longrightarrow> clean_segs acc ss = rev acc @ ss"
  by (induction ss arbitrary: acc) auto

definition plain_seg :: "string \<Rightarrow> bool" where
  "plain_seg s \<longleftrightarrow> s \<noteq> [] \<and> CHR ''/'' \<notin> set s \<and> CHR 0x25 \<notin> set s \<and> CHR ''.'' \<notin> set s"

definition path_of :: "string list \<Rightarrow> string" where
  "path_of ss = concat (map ((#) (CHR ''/'')) ss)"

lemma split_path:
  "list_all plain_seg ss \<Longrightarrow> split_on (CHR ''/'') (path_of ss) = [] # ss"
proof -
  have "list_all plain_seg ss \<Longrightarrow> ss \<noteq> [] \<Longrightarrow>
      split_on (CHR ''/'') (List.tl (path_of ss)) = ss" for ss
  proof (induction ss)
    case (Cons s ss)
    show ?case
    proof (cases ss)
      case Nil
      thus ?thesis using Cons.prems by (simp add: path_of_def plain_seg_def split_on_no_sep)
    next
      case (Cons s' ss')
      hence "List.tl (path_of (s # ss)) = s @ CHR ''/'' # List.tl (path_of ss)"
        by (simp add: path_of_def)
      moreover have "split_on (CHR ''/'') s = [s]"
        using Cons.prems by (simp add: plain_seg_def split_on_no_sep)
      ultimately show ?thesis using Cons.IH Cons.prems Cons by (simp add: split_on_append)
    qed
  qed simp
  note tail = this
  assume "list_all plain_seg ss"
  with tail [of ss] show ?thesis by (cases ss) (simp_all add: path_of_def)
qed

lemma join_path: "ss \<noteq> [] \<Longrightarrow> CHR ''/'' # join_with ''/'' ss = path_of ss"
proof (induction ss)
  case (Cons s ss)
  thus ?case by (cases ss) (simp_all add: path_of_def)
qed simp

lemma last_path: "list_all plain_seg ss \<Longrightarrow> ss \<noteq> [] \<Longrightarrow> last (path_of ss) \<noteq> CHR ''/''"
proof (induction ss)
  case (Cons s ss)
  have "s \<noteq> []" "CHR ''/'' \<notin> set s" using Cons.prems by (auto simp: plain_seg_def)
  hence "s \<noteq> []" "last s \<noteq> CHR ''/''" by (auto dest: last_in_set)
  moreover have "ss \<noteq> [] \<Longrightarrow> path_of ss \<noteq> []" by (cases ss) (simp_all add: path_of_def)
  ultimately show ?case using Cons by (cases "ss = []") (simp_all add: path_of_def)
qed simp

lemma cleanPath_plain:
  assumes "list_all plain_seg ss" "ss \<noteq> []"
  shows "cleanPath (path_of ss) = path_of ss"
proof -
  have hd: "path_of ss \<noteq> []" "hd (path_of ss) = CHR ''/''"
    using assms(2) by (cases ss; simp add: path_of_def)+
  have "clean_segs [] ([] # ss) = ss"
  proof -
    have "s \<noteq> [] \<and> s \<noteq> ''.'' \<and> s \<noteq> ''..''" if "s \<in> set ss" for s
      using assms(1) that by (auto simp: list_all_iff plain_seg_def)
    hence "list_all (\<lambda>s. s \<noteq> [] \<and> s \<noteq> ''.'' \<and> s \<noteq> ''..'') ss" by (simp add: list_all_iff)
    thus ?thesis by (simp add: clean_segs_plain)
  qed
  with hd show ?thesis
    using last_path [OF assms] by (simp add: cleanPath_def split_path [OF assms(1)] join_path [OF assms(2)])
qed

lemma segments_plain:
  assumes "list_all plain_seg ss"
  shows "segments (path_of ss) = ss"
proof -
  have "(if s = [] then ''/'' else pathUnescape s) = s" if "s \<in> set ss" for s
    using assms that by (auto simp: list_all_iff plain_seg_def pathUnescape_def unescape_plain)
  thus ?thesis by (simp add: segments_def split_path [OF assms] map_idI)
qed

text \<open>On clean paths of plain segments the router works on the list of segments.\<close>

lemma route_plain:
  assumes "list_all plain_seg ss" "ss \<noteq> []" "rq_escaped r = path_of ss"
  shows "route_of r =
    (if rq_method r = ''GET'' \<or> rq_method r = ''HEAD''
     then (if ss = [''static''] then RRedirect else match_get ss)
     else if rq_method r = ''POST'' then match_post ss else RNotAllowed)"
  using assms(3) cleanPath_plain [OF assms(1,2)] segments_plain [OF assms(1)]
  by (auto simp: route_of_def Let_def)

lemma route_root:
  assumes "rq_escaped r = ''/''"
  shows "route_of r =
    (if rq_method r = ''GET'' \<or> rq_method r = ''HEAD'' then RIndex
     else if rq_method r = ''POST'' then RCreate else RNotAllowed)"
  using assms by (simp add: route_of_def cleanPath_def segments_def)

end
