(* ===== verification/Connect.thy ===== *)
theory Connect
  imports Prelude
begin

text \<open>
  internal/db/db.go: Connect and migrate. The pool is followed from its creation to its
  closing; the result of each round trip is an argument. The schema is the list of the
  relations and extensions present; a migration script is sent as one simple query, which
  PostgreSQL runs as one transaction, so that it is applied as a whole or not at all.
\<close>

section \<open>Migrations\<close>

definition migration001 :: "string list" where
  "migration001 = [''pgcrypto'', ''secrets'', ''idx_secrets_token'', ''idx_secrets_expires_at'']"

definition migration002 :: "string list" where
  "migration002 = [''app_logs'', ''idx_app_logs_ts'', ''idx_app_logs_level'']"

definition migration003 :: "string list" where
  "migration003 = [''secret_events'', ''idx_secret_events_type'', ''idx_secret_events_ts'']"

definition migrations :: "string list list" where
  "migrations = [migration001, migration002, migration003]"

text \<open>CREATE ... IF NOT EXISTS for each object of a script.\<close>

definition create_objects :: "string list \<Rightarrow> string list \<Rightarrow> string list" where
  "create_objects objs schema = fold List.insert objs schema"

text \<open>
  The loop of migrate from script i on: \<open>fails i\<close> is the error of the Exec of script i; the
  result is the schema reached and the error with the number of its script.
\<close>

fun migrate_from ::
    "(nat \<Rightarrow> string option) \<Rightarrow> nat \<Rightarrow> string list list \<Rightarrow> string list \<Rightarrow>
     string list \<times> (nat \<times> string) option" where
  "migrate_from fails i [] schema = (schema, None)"
| "migrate_from fails i (sql # sqls) schema =
     (case fails i of
        Some e \<Rightarrow> (schema, Some (i + 1, e))
      | None \<Rightarrow> migrate_from fails (i + 1) sqls (create_objects sql schema))"

definition migrate :: "(nat \<Rightarrow> string option) \<Rightarrow> string list \<Rightarrow> string list \<times> (nat \<times> string) option" where
  "migrate fails schema = migrate_from fails 0 migrations schema"

section \<open>Connect\<close>

datatype pool = NoPool | OpenPool | ClosedPool

datatype connect_error = CreatePool string | PingDatabase string | Migrate nat string

record connect_env =
  cn_new :: "string option"
  cn_ping :: "string option"
  cn_exec :: "nat \<Rightarrow> string option"

text \<open>What is left of the pool, the schema, and the result: an error, or the open pool.\<close>

definition connect ::
    "connect_env \<Rightarrow> string list \<Rightarrow> pool \<times> string list \<times> connect_error option" where
  "connect env schema =
     (case cn_new env of
        Some e \<Rightarrow> (NoPool, schema, Some (CreatePool e))
      | None \<Rightarrow>
          (case cn_ping env of
             Some e \<Rightarrow> (ClosedPool, schema, Some (PingDatabase e))
           | None \<Rightarrow>
               (case migrate (cn_exec env) schema of
                  (schema', Some (n, e)) \<Rightarrow> (ClosedPool, schema', Some (Migrate n e))
                | (schema', None) \<Rightarrow> (OpenPool, schema', None))))"

section \<open>Lemmas\<close>

lemma set_create_objects: "set (create_objects objs schema) = set objs \<union> set schema"
  by (induction objs arbitrary: schema) (auto simp: create_objects_def)

lemma create_objects_present: "set objs \<subseteq> set schema \<Longrightarrow> create_objects objs schema = schema"
  by (induction objs) (auto simp: create_objects_def List.insert_def)

lemma migrate_cases:
  "migrate fails schema =
    (case fails 0 of Some e \<Rightarrow> (schema, Some (1, e)) | None \<Rightarrow>
      (case fails 1 of Some e \<Rightarrow> (fold create_objects (take 1 migrations) schema, Some (2, e)) | None \<Rightarrow>
        (case fails 2 of Some e \<Rightarrow> (fold create_objects (take 2 migrations) schema, Some (3, e))
         | None \<Rightarrow> (fold create_objects migrations schema, None))))"
  by (simp add: migrate_def migrations_def numeral_2_eq_2 numeral_3_eq_3 split: option.splits)

lemma set_fold_create:
  "set (fold create_objects sqls schema) = \<Union> (set (map set sqls)) \<union> set schema"
  by (induction sqls arbitrary: schema) (auto simp: set_create_objects)

lemma fold_create_present:
  "\<Union> (set (map set sqls)) \<subseteq> set schema \<Longrightarrow> fold create_objects sqls schema = schema"
  by (induction sqls) (auto simp: create_objects_present)

section \<open>Properties\<close>

text \<open>C33: Connect on every branch. A pool comes back, open, exactly if the pool could be created,
  the ping succeeded and all three migrations ran; on every other way out the pool, once
  created, is closed. Migrations run in order and stop at the first error, whose number is
  reported, and the scripts before it stay applied. After success all tables exist, and a
  second start finds nothing left to create.\<close>

theorem connect_outcome:
  "case connect env schema of (pool, schema', res) \<Rightarrow>
    (res = None) = (cn_new env = None \<and> cn_ping env = None \<and>
      cn_exec env 0 = None \<and> cn_exec env 1 = None \<and> cn_exec env 2 = None) \<and>
    pool = (if cn_new env \<noteq> None then NoPool else if res = None then OpenPool else ClosedPool) \<and>
    (case res of
       None \<Rightarrow> {''secrets'', ''app_logs'', ''secret_events''} \<subseteq> set schema' \<and>
         set schema \<subseteq> set schema' \<and> fst (snd (connect env schema')) = schema'
     | Some (Migrate n e) \<Rightarrow> 1 \<le> n \<and> cn_exec env (n - 1) = Some e \<and>
         schema' = fold create_objects (take (n - 1) migrations) schema
     | Some _ \<Rightarrow> schema' = schema)"
proof -
  have "fold create_objects migrations (fold create_objects migrations schema) =
      fold create_objects migrations schema"
    by (rule fold_create_present) (auto simp: set_fold_create)
  moreover have "{''secrets'', ''app_logs'', ''secret_events''} \<union> set schema \<subseteq>
      set (fold create_objects migrations schema)"
    unfolding set_fold_create
    by (auto simp: migrations_def migration001_def migration002_def migration003_def)
  ultimately show ?thesis
    by (auto simp: connect_def migrate_cases split: option.splits)
qed

end
