(* ===== verification/Server.thy ===== *)
theory Server
  imports Admin RateLimit Router Config Connect
begin

text \<open>
  cmd/server/main.go: start-up and wiring. The state of the running server is the database,
  the records given to the logger, and the three rate limiters; an event is a request, a
  tick of one of the background goroutines, or the log writer inserting a queued record.
  What main takes from outside (templates, embedded files, parsers, hashes, clocks) is
  collected in the record \<open>app\<close>; what one request brings in \<open>req_env\<close>.
\<close>

section \<open>Start-up\<close>

definition parseLogLevel :: "string \<Rightarrow> level" where
  "parseLogLevel s =
     (if s = ''debug'' then levelDebug
      else if s = ''info'' then levelInfo
      else if s = ''error'' then levelError
      else levelWarn)"

definition stdout_level :: "config \<Rightarrow> level" where
  "stdout_level cfg = (if cf_logLevel cfg = ''debug'' then levelDebug else levelInfo)"

record main_env =
  mn_printConfig :: bool
  mn_getenv :: "string \<Rightarrow> string"
  mn_connect :: connect_env
  mn_schema :: "string list"
  mn_now :: gotime

text \<open>The running process: log levels, handlers, the limiters of the three tiers, the address.\<close>

record ('t, 'u, 'l) started =
  st_stdout :: level
  st_dblog :: level
  st_handler :: "'t page_handler"
  st_admin :: "'u admin_handler"
  st_create :: "'l rate_limiter"
  st_reveal :: "'l rate_limiter"
  st_health :: "'l rate_limiter"
  st_addr :: string

text \<open>main up to the call of ListenAndServe: an exit code, or the running process.\<close>

definition main_start ::
    "(string list \<Rightarrow> string + 't) \<Rightarrow> (string list \<Rightarrow> string + 'u) \<Rightarrow> main_env \<Rightarrow>
     nat + ('t, 'u, 'l) started" where
  "main_start parse parseAdmin e =
     (let cfg = load (mn_getenv e) in
      if mn_printConfig e then Inl 0
      else (case connect (mn_connect e) (mn_schema e) of
              (_, _, Some _) \<Rightarrow> Inl 1
            | (_, _, None) \<Rightarrow>
                (case newHandler parse (cf_maxSecretBytes cfg) of
                   Inl _ \<Rightarrow> Inl 1
                 | Inr h \<Rightarrow>
                     (case newAdminHandler parseAdmin (mn_now e) (cf_adminUser cfg) (cf_adminPassword cfg) of
                        Inl _ \<Rightarrow> Inl 1
                      | Inr a \<Rightarrow>
                          Inr \<lparr>st_stdout = stdout_level cfg,
                               st_dblog = parseLogLevel (cf_logDBMinLevel cfg),
                               st_handler = h, st_admin = a,
                               st_create = newRateLimiter (cf_createPerMin cfg) 5 (cf_trustProxy cfg) (cf_proxies cfg),
                               st_reveal = newRateLimiter (cf_revealPerMin cfg) 10 (cf_trustProxy cfg) (cf_proxies cfg),
                               st_health = newRateLimiter (cf_healthPerMin cfg) 3 (cf_trustProxy cfg) (cf_proxies cfg),
                               st_addr = '':'' @ cf_port cfg\<rparr>))))"

section \<open>The running server\<close>

record 'l server = world +
  sv_create :: "'l rate_limiter"
  sv_reveal :: "'l rate_limiter"
  sv_health :: "'l rate_limiter"

definition boot :: "database \<Rightarrow> ('t, 'u, 'l) started \<Rightarrow> 'l server" where
  "boot db st = \<lparr>w_db = db, w_logs = [], sv_create = st_create st, sv_reveal = st_reveal st,
     sv_health = st_health st\<rparr>"

record ('t, 'u, 'l) app =
  ap_handler :: "'t page_handler"
  ap_admin :: "'u admin_handler"
  ap_exec :: "'t \<Rightarrow> page_data \<Rightarrow> string \<times> string option"
  ap_execAdmin :: "'u \<Rightarrow> admin_page \<Rightarrow> string \<times> string option"
  ap_static :: "'l server handler"
  ap_target :: "request \<Rightarrow> string \<times> string"
  ap_web :: web_env
  ap_tz :: "gotime \<Rightarrow> gotime"
  ap_extText :: "err \<Rightarrow> string"
  ap_newL :: "rat \<Rightarrow> int \<Rightarrow> 'l"
  ap_allow :: "gotime \<Rightarrow> 'l \<Rightarrow> 'l \<times> bool"
  ap_parseIP :: "string \<Rightarrow> string option"
  ap_sha :: "string \<Rightarrow> bytes"
  ap_parseHost :: "string \<Rightarrow> string option"

record req_env =
  q_now :: gotime
  q_create :: create_env
  q_reveal :: reveal_env
  q_health :: health_env
  q_logs :: logs_env
  q_clear :: clear_env

definition limit_create :: "('t, 'u, 'l) app \<Rightarrow> req_env \<Rightarrow> 'l server handler \<Rightarrow> 'l server handler" where
  "limit_create app q = limit (ap_newL app) (ap_allow app) (ap_parseIP app) sv_create
     (\<lambda>l s. s\<lparr>sv_create := l\<rparr>) (q_now q)"

definition limit_reveal :: "('t, 'u, 'l) app \<Rightarrow> req_env \<Rightarrow> 'l server handler \<Rightarrow> 'l server handler" where
  "limit_reveal app q = limit (ap_newL app) (ap_allow app) (ap_parseIP app) sv_reveal
     (\<lambda>l s. s\<lparr>sv_reveal := l\<rparr>) (q_now q)"

definition limit_health :: "('t, 'u, 'l) app \<Rightarrow> req_env \<Rightarrow> 'l server handler \<Rightarrow> 'l server handler" where
  "limit_health app q = limit (ap_newL app) (ap_allow app) (ap_parseIP app) sv_health
     (\<lambda>l s. s\<lparr>sv_health := l\<rparr>) (q_now q)"

text \<open>The handler registered for each pattern, as main composes it.\<close>

definition serve_route :: "('t, 'u, 'l) app \<Rightarrow> req_env \<Rightarrow> route \<Rightarrow> 'l server handler" where
  "serve_route app q rt =
     (case rt of
        RStatic \<Rightarrow> ap_static app
      | RIndex \<Rightarrow> serveIndex (ap_exec app) (ap_handler app)
      | RCreate \<Rightarrow> limit_create app q
          (createHandler (we_uc (ap_web app)) (ap_tz app) (ap_extText app)
             (ph_maxBytes (ap_handler app)) (q_create q))
      | RPage token \<Rightarrow> (\<lambda>r. servePage (ap_exec app) (ap_handler app) (r\<lparr>rq_token := token\<rparr>))
      | RReveal token \<Rightarrow>
          (\<lambda>r. limit_reveal app q (revealHandler (ap_extText app) (q_reveal q)) (r\<lparr>rq_token := token\<rparr>))
      | RHealth \<Rightarrow> limit_health app q (basicAuthHandler (ap_sha app) (ap_admin app)
          (serveHealth (ap_execAdmin app) (ap_web app) (ap_admin app) (q_health q)))
      | RHealthLogs \<Rightarrow> limit_health app q (basicAuthHandler (ap_sha app) (ap_admin app)
          (serveHealthLogs (ap_execAdmin app) (ap_web app) (ap_admin app) (q_logs q)))
      | RClearLogs \<Rightarrow> limit_health app q (basicAuthHandler (ap_sha app) (ap_admin app)
          (clearLogs (ap_execAdmin app) (ap_extText app) (ap_parseHost app) (ap_web app) (ap_admin app) (q_clear q)))
      | RRedirect \<Rightarrow> redirect (ap_target app)
      | RNotAllowed \<Rightarrow> not_allowed)"

definition mux :: "('t, 'u, 'l) app \<Rightarrow> req_env \<Rightarrow> 'l server handler" where
  "mux app q = (\<lambda>r. serve_route app q (route_of r) r)"

text \<open>One request through the whole stack.\<close>

definition serve :: "('t, 'u, 'l) app \<Rightarrow> req_env \<Rightarrow> request \<Rightarrow> 'l server \<Rightarrow> 'l server hres" where
  "serve app q r s = middleware (we_uc (ap_web app)) (mux app q) r s new_response"

section \<open>Events\<close>

datatype tier = TCreate | TReveal | THealth

datatype event =
    Request req_env request
  | CleanupTick cleanup_env
  | EvictTick tier gotime
  | LogWrite outcome db_record

text \<open>One tick of the clean-up worker of main.\<close>

definition cleanup_tick :: "(err \<Rightarrow> string) \<Rightarrow> cleanup_env \<Rightarrow> 'l server \<Rightarrow> 'l server" where
  "cleanup_tick extText env s =
     (case cleanupExpired env (w_db s) of
        (db', _, None) \<Rightarrow> s\<lparr>w_db := db'\<rparr>
      | (db', _, Some e) \<Rightarrow>
          log_at levelWarn ''expired secret cleanup failed'' [err_attr ''err'' (errText extText e)]
            (s\<lparr>w_db := db'\<rparr>))"

fun evict_tick :: "tier \<Rightarrow> gotime \<Rightarrow> 'l server \<Rightarrow> 'l server" where
  "evict_tick TCreate now s = s\<lparr>sv_create := evict now (sv_create s)\<rparr>"
| "evict_tick TReveal now s = s\<lparr>sv_reveal := evict now (sv_reveal s)\<rparr>"
| "evict_tick THealth now s = s\<lparr>sv_health := evict now (sv_health s)\<rparr>"

fun server_step :: "('t, 'u, 'l) app \<Rightarrow> event \<Rightarrow> 'l server \<Rightarrow> 'l server" where
  "server_step app (Request q r) s = hres_world (serve app q r s)"
| "server_step app (CleanupTick env) s = cleanup_tick (ap_extText app) env s"
| "server_step app (EvictTick t now) s = evict_tick t now s"
| "server_step app (LogWrite out rec) s = s\<lparr>w_db := insert_record True out rec (w_db s)\<rparr>"

fun server_run :: "('t, 'u, 'l) app \<Rightarrow> event list \<Rightarrow> 'l server \<Rightarrow> 'l server" where
  "server_run app [] s = s"
| "server_run app (ev # evs) s = server_run app evs (server_step app ev s)"

section \<open>Headers\<close>

lemma keeps_limit: "keeps_headers next \<Longrightarrow> keeps_headers (limit newL allow parseIP get put now next)"
  by (auto simp: keeps_headers_def limit_def Let_def split: prod.splits)

lemma keeps_redirect: "keeps_headers (redirect target)"
  by (auto simp: keeps_headers_def redirect_def Let_def split: prod.splits
      intro!: guarded_write_body guarded_write_header)

lemma guarded_set_allow: "guarded security_headers rw \<Longrightarrow> guarded security_headers (set_header ''Allow'' v rw)"
  by (rule guarded_set_header) (auto simp: security_headers_def)

lemma keeps_not_allowed: "keeps_headers not_allowed"
  by (auto simp: keeps_headers_def not_allowed_def guarded_set_allow)

lemma keeps_at_token:
  "keeps_headers h \<Longrightarrow> keeps_headers (\<lambda>r. h (r\<lparr>rq_token := token\<rparr>))"
  by (simp add: keeps_headers_def)

lemma keeps_serve_route:
  assumes "keeps_headers (ap_static app)"
  shows "keeps_headers (serve_route app q rt)"
  using assms
  by (cases rt)
    (simp_all add: serve_route_def limit_create_def limit_reveal_def limit_health_def keeps_limit
      keeps_at_token keeps_serveIndex keeps_servePage keeps_createHandler keeps_revealHandler
      keeps_basicAuthHandler keeps_serveHealth keeps_serveHealthLogs keeps_clearLogs
      keeps_redirect keeps_not_allowed)

lemma keeps_mux: "keeps_headers (ap_static app) \<Longrightarrow> keeps_headers (mux app q)"
  using keeps_serve_route [of app q] by (simp add: keeps_headers_def mux_def)

section \<open>Properties of the state that requests keep\<close>

definition keeps :: "('w \<Rightarrow> bool) \<Rightarrow> 'w handler \<Rightarrow> request \<Rightarrow> bool" where
  "keeps I h r \<longleftrightarrow> (\<forall>w rw. I w \<longrightarrow> I (hres_world (h r w rw)))"

text \<open>
  A property of the state that neither logging nor the rate limiters can break. It survives
  a request if the handler that the router picks keeps it.
\<close>

locale server_property =
  fixes I :: "'l server \<Rightarrow> bool"
  assumes log: "I s \<Longrightarrow> I (log_at lv msg as s)"
    and put_create: "I s \<Longrightarrow> I (s\<lparr>sv_create := l\<rparr>)"
    and put_reveal: "I s \<Longrightarrow> I (s\<lparr>sv_reveal := l\<rparr>)"
    and put_health: "I s \<Longrightarrow> I (s\<lparr>sv_health := l\<rparr>)"
begin

lemma keeps_limit_of:
  assumes "keeps I next r" "\<And>l s. I s \<Longrightarrow> I (put l s)"
  shows "keeps I (limit newL allow parseIP get put now next) r"
  using assms log by (auto simp: keeps_def limit_def Let_def split: prod.splits)

lemma keeps_tiers:
  assumes "keeps I next r"
  shows "keeps I (limit_create app q next) r" "keeps I (limit_reveal app q next) r"
    "keeps I (limit_health app q next) r"
  unfolding limit_create_def limit_reveal_def limit_health_def
  by (rule keeps_limit_of [OF assms], erule put_create put_reveal put_health)+

lemma keeps_gate: "keeps I next r \<Longrightarrow> keeps I (basicAuthHandler sha a next) r"
  by (simp add: keeps_def basicAuthHandler_def Let_def)

lemma keeps_middleware: "keeps I next r \<Longrightarrow> keeps I (middleware uc next) r"
  unfolding keeps_def middleware_def Let_def
proof (intro allI impI)
  fix w rw assume k: "\<forall>w rw. I w \<longrightarrow> I (hres_world (next r w rw))" and i: "I w"
  let ?w = "log_at levelInfo ''request''
    [str_attr ''method'' (rq_method r), str_attr ''path'' (maskTokenInPath (rq_path r)),
     str_attr ''remote'' (rq_remote r)] w"
  have "I (hres_world (next r ?w rw'))" for rw' using k log [OF i] by blast
  thus "I (hres_world
      (if isProbeRequest uc (rq_path r)
       then Done (log_at levelWarn ''probe request blocked''
              [str_attr ''method'' (rq_method r), str_attr ''path'' (rq_path r),
               str_attr ''remote'' (rq_remote r)] w)
             (write_header 418 (set_headers security_headers rw))
       else case next r ?w (set_headers security_headers rw) of
            Done w' rw' \<Rightarrow> Done w' rw'
          | Panicked w' rw' rec \<Rightarrow>
              Done (log_at levelError ''panic recovered''
                     [(''panic'', VAny rec), str_attr ''path'' (maskTokenInPath (rq_path r))] w')
               (http_error ''internal server error'' 500 rw')))"
    using log i by (auto split: hres.splits) (metis hres_world.simps)+
qed

lemma keeps_serve:
  "keeps I (serve_route app q (route_of r)) r \<Longrightarrow> I s \<Longrightarrow> I (hres_world (serve app q r s))"
  using keeps_middleware [of "mux app q" r "we_uc (ap_web app)"]
  by (simp add: keeps_def mux_def serve_def)

end

interpretation on_db: server_property "\<lambda>s. J (w_db s)" for J
  by unfold_locales simp_all

lemma insert_record_frame [frame_simps]:
  "secrets (insert_record pool out rec db) = secrets db"
  "secret_events (insert_record pool out rec db) = secret_events db"
  by (auto simp: insert_record_def exec_stmt_def sql_insert_log_def split: outcome.splits)

text \<open>
  A property of the database that every method of the service and of the log tables keeps
  holds throughout the life of the server.
\<close>

definition static_ok :: "('t, 'u, 'l) app \<Rightarrow> bool" where
  "static_ok app \<longleftrightarrow> keeps_headers (ap_static app) \<and>
     (\<forall>r s rw. w_db (hres_world (ap_static app r s rw)) = w_db s)"

lemma keeps_db_same:
  "(\<And>w rw. w_db (hres_world (h r w rw)) = w_db w) \<Longrightarrow> keeps (\<lambda>s. J (w_db s)) h r"
  by (simp add: keeps_def)

lemma keeps_db_route:
  fixes app :: "('t, 'u, 'l) app"
  assumes "static_ok app"
    and "rt = RCreate \<Longrightarrow> keeps (\<lambda>s :: 'l server. J (w_db s)) (createHandler (we_uc (ap_web app)) (ap_tz app)
      (ap_extText app) (ph_maxBytes (ap_handler app)) (q_create q)) r"
    and "\<And>t. rt = RReveal t \<Longrightarrow>
      keeps (\<lambda>s :: 'l server. J (w_db s)) (revealHandler (ap_extText app) (q_reveal q)) (r\<lparr>rq_token := t\<rparr>)"
    and "rt = RClearLogs \<Longrightarrow> keeps (\<lambda>s :: 'l server. J (w_db s)) (clearLogs (ap_execAdmin app) (ap_extText app)
      (ap_parseHost app) (ap_web app) (ap_admin app) (q_clear q)) r"
  shows "keeps (\<lambda>s :: 'l server. J (w_db s)) (serve_route app q rt) r"
proof (cases rt)
  case RStatic
  with assms(1) show ?thesis by (simp add: serve_route_def static_ok_def keeps_def)
next
  case RCreate
  with on_db.keeps_tiers(1) [of J, OF assms(2) [OF RCreate]] show ?thesis by (simp add: serve_route_def)
next
  case (RReveal t)
  with on_db.keeps_tiers(2) [of J, OF assms(3) [OF RReveal]] show ?thesis
    by (simp add: serve_route_def keeps_def)
next
  case RClearLogs
  with on_db.keeps_tiers(3) [of J, OF on_db.keeps_gate, OF assms(4) [OF RClearLogs]] show ?thesis
    by (simp add: serve_route_def)
next
  case RHealth
  have "keeps (\<lambda>s. J (w_db s)) (serveHealth (ap_execAdmin app) (ap_web app) (ap_admin app) (q_health q)) r"
    by (rule keeps_db_same) (rule serveHealth_db)
  with RHealth on_db.keeps_tiers(3) [of J, OF on_db.keeps_gate] show ?thesis
    by (simp add: serve_route_def)
next
  case RHealthLogs
  have "keeps (\<lambda>s. J (w_db s)) (serveHealthLogs (ap_execAdmin app) (ap_web app) (ap_admin app) (q_logs q)) r"
    by (rule keeps_db_same) (rule serveHealthLogs_db)
  with RHealthLogs on_db.keeps_tiers(3) [of J, OF on_db.keeps_gate] show ?thesis
    by (simp add: serve_route_def)
qed (auto simp: serve_route_def serveIndex_def servePage_def redirect_def not_allowed_def frame_simps
    Let_def intro!: keeps_db_same split: prod.splits)

locale db_invariant =
  fixes J :: "database \<Rightarrow> bool" and tz :: "gotime \<Rightarrow> gotime" and maxBytes :: int
  assumes J_create: "J db \<Longrightarrow> J (fst (createSecret tz maxBytes rnd env inp db))"
    and J_fetch: "J db \<Longrightarrow> J (fst (fetchAndDelete fenv token db))"
    and J_cleanup: "J db \<Longrightarrow> J (fst (cleanupExpired cenv db))"
    and J_logs: "J db \<Longrightarrow> secrets db' = secrets db \<Longrightarrow> secret_events db' = secret_events db \<Longrightarrow> J db'"
begin

lemma keeps_create: "keeps (\<lambda>s. J (w_db s)) (createHandler uc tz extText maxBytes env) r"
  unfolding keeps_def
proof (intro allI impI)
  fix w :: "'a world_scheme" and rw assume j: "J (w_db w)"
  show "J (w_db (hres_world (createHandler uc tz extText maxBytes env r w rw)))"
    using create_world [of uc tz extText maxBytes env r w rw] J_create [OF j] j by metis
qed

lemma keeps_reveal: "keeps (\<lambda>s. J (w_db s)) (revealHandler extText env) r"
  using J_fetch by (simp add: keeps_def reveal_world)

lemma keeps_clear: "keeps (\<lambda>s. J (w_db s)) (clearLogs exec extText parseHost env a q) r"
  unfolding keeps_def using J_logs by (metis clearLogs_keeps_secrets)

lemma J_serve:
  assumes "static_ok app" "ap_tz app = tz" "ph_maxBytes (ap_handler app) = maxBytes" "J (w_db s)"
  shows "J (w_db (hres_world (serve app q r s)))"
proof (rule on_db.keeps_serve [of J, OF _ assms(4)])
  show "keeps (\<lambda>s. J (w_db s)) (serve_route app q (route_of r)) r"
    using assms(1) keeps_create keeps_reveal keeps_clear unfolding assms(2,3) [symmetric]
    by (intro keeps_db_route)
qed

lemma J_step:
  assumes "static_ok app" "ap_tz app = tz" "ph_maxBytes (ap_handler app) = maxBytes" "J (w_db s)"
  shows "J (w_db (server_step app ev s))"
proof (cases ev)
  case (Request q r)
  with J_serve [OF assms] show ?thesis by simp
next
  case (CleanupTick env)
  with J_cleanup [OF assms(4), of env] show ?thesis
    by (auto simp: cleanup_tick_def split: prod.splits option.splits)
next
  case (EvictTick t now)
  with assms(4) show ?thesis by (cases t) simp_all
next
  case (LogWrite out rec)
  have "J (insert_record True out rec (w_db s))"
    by (rule J_logs [OF assms(4)]) (simp_all add: insert_record_frame)
  with LogWrite show ?thesis by simp
qed

lemma J_run:
  assumes "static_ok app" "ap_tz app = tz" "ph_maxBytes (ap_handler app) = maxBytes"
  shows "J (w_db s) \<Longrightarrow> J (w_db (server_run app evs s))"
  by (induction evs arbitrary: s) (simp_all add: J_step [OF assms])

end

interpretation integrity: db_invariant db_ok tz maxBytes for tz maxBytes
  by unfold_locales
    (auto simp: create_ok fetchAndDelete_ok cleanupExpired_ok, auto simp: db_ok_def)

interpretation sizes: db_invariant "sized maxBytes" tz maxBytes for tz maxBytes
  by unfold_locales
    (auto simp: create_sized fetch_sized cleanup_sized, auto simp: sized_def)

text \<open>The token column holds what generateToken makes.\<close>

definition tokens_typed :: "database \<Rightarrow> bool" where
  "tokens_typed db \<longleftrightarrow> list_all (\<lambda>x. length (s_token x) = 32 \<and> list_all is_hex (s_token x)) (secrets db)"

lemma tokens_subset: "set (secrets db') \<subseteq> set (secrets db) \<Longrightarrow> tokens_typed db \<Longrightarrow> tokens_typed db'"
  by (auto simp: tokens_typed_def list_all_iff)

lemma create_typed:
  assumes "tokens_typed db"
  shows "tokens_typed (fst (createSecret tz maxBytes rnd env inp db))"
proof (cases "int (length (ci_ciphertext inp)) > maxBytes \<or> rnd = None")
  case True
  with assms show ?thesis by (auto simp: createSecret_db)
next
  case False
  then obtain src where src: "rnd = Some src" by auto
  have "tokens_typed (fst (store tz env (token_of src) inp db))"
    using store_rows [of tz env "token_of src" inp db] assms token_of_format [of src]
    by (auto simp: tokens_typed_def new_row_def)
  with False src show ?thesis by (simp add: createSecret_db)
qed

interpretation typing: db_invariant tokens_typed tz maxBytes for tz maxBytes
proof
  fix db db' :: database and fenv token cenv
  assume "tokens_typed db"
  thus "tokens_typed (fst (fetchAndDelete fenv token db))" "tokens_typed (fst (cleanupExpired cenv db))"
    by (auto simp: fetch_secrets split: outcome.splits intro: tokens_subset)
      (use cleanup_secrets [of cenv db] in \<open>auto intro: tokens_subset\<close>)
  assume "secrets db' = secrets db"
  with \<open>tokens_typed db\<close> show "tokens_typed db'" by (simp add: tokens_typed_def)
qed (rule create_typed)

section \<open>A concrete server\<close>

definition demo_web_env :: web_env where
  "demo_web_env = \<lparr>we_uc = plain_tables, we_ago = (\<lambda>_ now. now - 50), we_arrange = rev, we_pretty = Some\<rparr>"

definition demo_app :: "(unit, unit, exact_bucket) app" where
  "demo_app = \<lparr>ap_handler = \<lparr>ph_maxBytes = 100, ph_tmpls = Map.empty\<rparr>, ap_admin = demo_admin,
     ap_exec = (\<lambda>_ _. ([], None)), ap_execAdmin = (\<lambda>_ _. ([], None)),
     ap_static = (\<lambda>r s rw. Done s (not_found rw)), ap_target = (\<lambda>_. (''/'', [])),
     ap_web = demo_web_env, ap_tz = id, ap_extText = (\<lambda>_. []), ap_newL = exact_new,
     ap_allow = exact_allow, ap_parseIP = (\<lambda>_. None), ap_sha = bytes_of_string, ap_parseHost = Some\<rparr>"

definition demo_req_env :: req_env where
  "demo_req_env = \<lparr>q_now = 0, q_create = demo_create_env,
     q_reveal = \<lparr>re_fetch = \<lparr>fe_delete = acked 6, fe_event = acked 6\<rparr>, re_write = None\<rparr>,
     q_health = \<lparr>he_now = 0, he_ping = None, he_stat = (1, 1, 4), he_version = [], he_summary = demo_query,
       he_summary_order = id, he_stats = demo_query, he_stats_order = id,
       he_logs = \<lparr>le_count = demo_query, le_rows = demo_query\<rparr>\<rparr>,
     q_logs = \<lparr>le_count = demo_query, le_rows = demo_query\<rparr>,
     q_clear = \<lparr>ae_delete = acked 0, ae_logs = \<lparr>le_count = demo_query, le_rows = demo_query\<rparr>\<rparr>\<rparr>"

text \<open>The server with the given reveal tier, holding one secret under the token "07".\<close>

definition demo_row :: secret where
  "demo_row = \<lparr>s_id = ''u'', s_token = ''07'', s_ciphertext = [1, 2], s_nonce = [3],
     s_expires_at = Some 100, s_created_at = 0\<rparr>"

definition demo_server :: "exact_bucket rate_limiter \<Rightarrow> exact_bucket server" where
  "demo_server rl = \<lparr>w_db = empty_db\<lparr>secrets := [demo_row]\<rparr>, w_logs = [],
     sv_create = newRateLimiter 10 5 False 1, sv_reveal = rl, sv_health = newRateLimiter 5 3 False 1\<rparr>"

definition demo_page :: request where
  "demo_page = demo_get\<lparr>rq_path := ''/s/07'', rq_escaped := ''/s/07''\<rparr>"

definition demo_reveal_post :: request where
  "demo_reveal_post = demo_get\<lparr>rq_method := ''POST'', rq_path := ''/s/07/reveal'',
     rq_escaped := ''/s/07/reveal''\<rparr>"

lemma demo_static_ok: "static_ok demo_app"
  by (auto simp: static_ok_def demo_app_def keeps_headers_def not_found_def)

section \<open>Routing of token URLs\<close>

lemma hex_plain_seg: "list_all is_hex tok \<Longrightarrow> tok \<noteq> [] \<Longrightarrow> plain_seg tok"
proof -
  have "list_all is_hex tok \<Longrightarrow> CHR 0x25 \<notin> set tok" by (induction tok) (auto simp: is_hex_def Let_def)
  thus "list_all is_hex tok \<Longrightarrow> tok \<noteq> [] \<Longrightarrow> plain_seg tok"
    using hex_ascii [of tok] by (simp add: plain_seg_def)
qed

lemma route_reveal:
  assumes "list_all is_hex tok" "tok \<noteq> []" "rq_method r = ''POST''"
    and "rq_escaped r = ''/s/'' @ tok @ ''/reveal''"
  shows "route_of r = RReveal tok"
proof -
  have "plain_seg ''s''" "plain_seg ''reveal''" by (simp_all add: plain_seg_def)
  hence l: "list_all plain_seg [''s'', tok, ''reveal'']"
    using hex_plain_seg [OF assms(1,2)] by simp
  have e: "rq_escaped r = path_of [''s'', tok, ''reveal'']"
    using assms(4) by (simp add: path_of_def)
  have "tok \<noteq> ''/''" using hex_ascii [OF assms(1)] by auto
  with route_plain [OF l _ e] assms(3) show ?thesis by simp
qed

lemma route_page:
  assumes "list_all is_hex tok" "tok \<noteq> []" "rq_method r = ''GET''" "rq_escaped r = ''/s/'' @ tok"
  shows "route_of r = RPage tok"
proof -
  have "plain_seg ''s''" by (simp add: plain_seg_def)
  hence l: "list_all plain_seg [''s'', tok]" using hex_plain_seg [OF assms(1,2)] by simp
  have e: "rq_escaped r = path_of [''s'', tok]" using assms(4) by (simp add: path_of_def)
  have "tok \<noteq> ''/''" using hex_ascii [OF assms(1)] by auto
  with route_plain [OF l _ e] assms(3) show ?thesis by simp
qed

lemma page_not_probe:
  assumes "list_all is_hex tok"
  shows "\<not> isProbeRequest uc (''/s/'' @ tok)"
  using hex_ascii [OF assms] by (intro token_path_not_probe [where rest = tok]) simp_all

lemma reveal_not_probe:
  assumes "list_all is_hex tok"
  shows "\<not> isProbeRequest uc (''/s/'' @ tok @ ''/reveal'')"
  using hex_ascii [OF assms] by (intro token_path_not_probe [where rest = "tok @ ''/reveal''"]) simp_all

lemma match_get_reads: "match_get ss \<noteq> RCreate" "match_get ss \<noteq> RClearLogs" "match_get ss \<noteq> RReveal t"
  by (cases ss rule: match_get.cases; simp)+

lemma route_post:
  "route_of r = RCreate \<or> route_of r = RClearLogs \<or> route_of r = RReveal t \<Longrightarrow> rq_method r = ''POST''"
  by (auto simp: route_of_def Let_def match_get_reads split: if_splits)

lemma keeps_create_row:
  "keeps (\<lambda>s. x \<in> set (secrets (w_db s))) (createHandler uc tz extText maxBytes env) r"
  unfolding keeps_def
proof (intro allI impI)
  fix w :: "'a world_scheme" and rw assume x: "x \<in> set (secrets (w_db w))"
  hence "x \<in> set (secrets (fst (createSecret tz maxBytes rnd senv inp (w_db w))))" for rnd senv inp
  proof (cases rnd)
    case (Some b)
    thus ?thesis using store_rows [of tz senv "token_of b" inp "w_db w"] x by (auto simp: createSecret_db)
  qed (use x in \<open>simp add: createSecret_db\<close>)
  thus "x \<in> set (secrets (w_db (hres_world (createHandler uc tz extText maxBytes env r w rw))))"
    using create_world [of uc tz extText maxBytes env r w rw] x by metis
qed

definition request_logged :: "request \<Rightarrow> 'l server \<Rightarrow> 'l server" where
  "request_logged r s = log_at levelInfo ''request''
     [str_attr ''method'' (rq_method r), str_attr ''path'' (maskTokenInPath (rq_path r)),
      str_attr ''remote'' (rq_remote r)] s"

lemma request_logged_frame [simp]:
  "w_db (request_logged r s) = w_db s" "sv_reveal (request_logged r s) = sv_reveal s"
  by (simp_all add: request_logged_def log_at_def)

lemma clientIP_token [simp]: "clientIP parseIP rl (r\<lparr>rq_token := t\<rparr>) = clientIP parseIP rl r"
  by (simp add: clientIP_def split: option.splits)

text \<open>A POST to a reveal URL gets through the middleware and the router to the reveal tier.\<close>

lemma serve_reveal:
  assumes "list_all is_hex tok" "tok \<noteq> []" "rq_method r = ''POST''"
    and "rq_path r = ''/s/'' @ tok @ ''/reveal''" "rq_escaped r = ''/s/'' @ tok @ ''/reveal''"
  shows "\<exists>h. serve app q r s =
    (case limit_reveal app q (revealHandler (ap_extText app) (q_reveal q)) (r\<lparr>rq_token := tok\<rparr>)
        (request_logged r s) (set_headers security_headers new_response) of
       Done w' rw' \<Rightarrow> Done w' rw' | Panicked w' rw' p \<Rightarrow> h w' rw' p)"
  using route_reveal [OF assms(1,2,3,5)] reveal_not_probe [OF assms(1)] assms(4)
  by (intro exI) (simp add: serve_def middleware_def mux_def serve_route_def Let_def request_logged_def)

lemma limit_reveal_passes:
  assumes "rl_rate (sv_reveal s) = 0 \<or> snd (take_token (ap_newL app) (ap_allow app) (q_now q)
      (clientIP (ap_parseIP app) (sv_reveal s) r) (sv_reveal s))"
  shows "\<exists>s2. limit_reveal app q next (r\<lparr>rq_token := tok\<rparr>) (request_logged r s) rw = next (r\<lparr>rq_token := tok\<rparr>) s2 rw \<and>
    w_db s2 = w_db s"
  using assms by (auto simp: limit_reveal_def limit_def Let_def split: prod.splits)

lemma limit_reveal_refuses:
  assumes "rl_rate (sv_reveal s) \<noteq> 0" "\<not> snd (take_token (ap_newL app) (ap_allow app) (q_now q)
      (clientIP (ap_parseIP app) (sv_reveal s) r) (sv_reveal s))"
  shows "\<exists>l. limit_reveal app q next (r\<lparr>rq_token := tok\<rparr>) (request_logged r s) rw =
      Done (log_at levelWarn ''rate limit exceeded''
              [str_attr ''ip'' (clientIP (ap_parseIP app) (sv_reveal s) r), str_attr ''path'' (rq_path r),
               str_attr ''method'' (rq_method r)] (request_logged r s\<lparr>sv_reveal := l\<rparr>))
        (http_error ''too many requests'' 429
          (set_header ''Retry-After'' (retryAfterSeconds (rl_perMinute (sv_reveal s))) rw))"
  using assms by (auto simp: limit_reveal_def limit_def Let_def split: prod.splits)

section \<open>Properties\<close>


definition demo_main :: main_env where
  "demo_main = \<lparr>mn_printConfig = False, mn_getenv = (\<lambda>_. []), mn_connect = \<lparr>cn_new = None, cn_ping = None,
     cn_exec = (\<lambda>_. None)\<rparr>, mn_schema = [], mn_now = 0\<rparr>"

definition demo_started :: "(unit, unit, exact_bucket) started" where
  "demo_started = (case main_start (\<lambda>_. Inr ()) (\<lambda>_. Inr ()) demo_main of Inr st \<Rightarrow> st)"

lemma demo_started: "main_start (\<lambda>_. Inr ()) (\<lambda>_. Inr ()) demo_main = Inr demo_started"
  by (simp add: demo_started_def main_start_def demo_main_def connect_def migrate_cases newHandler_def
      parseTemplates_def newAdminHandler_def parseAdminTemplates_def Let_def)


text \<open>C16: Types are kept, and well-typed secrets can be reached. Over any run of the server the
  token column holds strings of 32 lower-case hex digits only; and the link of every stored
  secret works: its page and its reveal URL are routed to their handlers with exactly this
  token, and neither is taken for a probe.\<close>

theorem stored_links_work:
  assumes "static_ok app" "tokens_typed (w_db s)" "x \<in> set (secrets (w_db (server_run app evs s)))"
  shows "length (s_token x) = 32 \<and> list_all is_hex (s_token x) \<and>
    (\<forall>r. rq_method r = ''GET'' \<and> rq_escaped r = ''/s/'' @ s_token x \<longrightarrow> route_of r = RPage (s_token x)) \<and>
    (\<forall>r. rq_method r = ''POST'' \<and> rq_escaped r = ''/s/'' @ s_token x @ ''/reveal'' \<longrightarrow>
      route_of r = RReveal (s_token x)) \<and>
    \<not> isProbeRequest uc (''/s/'' @ s_token x) \<and> \<not> isProbeRequest uc (''/s/'' @ s_token x @ ''/reveal'')"
proof -
  have "tokens_typed (w_db (server_run app evs s))"
    using typing.J_run [OF assms(1) refl refl assms(2)] .
  with assms(3) have t: "length (s_token x) = 32" "list_all is_hex (s_token x)"
    by (simp_all add: tokens_typed_def list_all_iff)
  from t(1) have "s_token x \<noteq> []" by auto
  with t show ?thesis
    using route_page [OF t(2)] route_reveal [OF t(2)] page_not_probe [OF t(2)] reveal_not_probe [OF t(2)] by blast
qed

definition demo_linked :: "exact_bucket server" where
  "demo_linked = demo_server (newRateLimiter 20 10 False 1)
     \<lparr>w_db := empty_db\<lparr>secrets := [demo_row\<lparr>s_token := token_of (\<lambda>_. 7)\<rparr>]\<rparr>\<rparr>"

theorem stored_links_work_witness:
  "route_of (demo_get\<lparr>rq_path := ''/s/'' @ token_of (\<lambda>_. 7), rq_escaped := ''/s/'' @ token_of (\<lambda>_. 7)\<rparr>) =
   RPage (token_of (\<lambda>_. 7))"
proof -
  let ?x = "demo_row\<lparr>s_token := token_of (\<lambda>_. 7)\<rparr>"
  have "tokens_typed (w_db demo_linked)"
    by (simp add: tokens_typed_def demo_linked_def token_of_format)
  moreover have "?x \<in> set (secrets (w_db (server_run demo_app [EvictTick THealth 0] demo_linked)))"
    by (simp add: demo_linked_def)
  ultimately show ?thesis
    using stored_links_work [OF demo_static_ok, of demo_linked ?x "[EvictTick THealth 0]" plain_tables]
    by (simp add: demo_get_def)
qed

text \<open>C10: Every response of the server carries the six security headers, whatever the request,
  the route and the state, and no request panics out of the stack. The file server for the
  embedded assets is only required not to overwrite those headers.\<close>

theorem responses_guarded:
  assumes "static_ok app" "(k, v) \<in> set security_headers"
  shows "sent_header (hres_response (serve app q r s)) k = Some v \<and> \<not> hres_panicked (serve app q r s)"
proof -
  have s: "rs_status new_response = None" by (simp add: new_response_def)
  have k: "keeps_headers (mux app q)" using assms(1) by (simp add: static_ok_def keeps_mux)
  have "guarded security_headers (set_headers security_headers new_response)"
    using distinct_security_headers s by (rule guarded_set_headers)
  hence g: "guarded security_headers (hres_response (mux app q r w (set_headers security_headers new_response)))" for w
    using k by (simp add: keeps_headers_def)
  have "guarded security_headers (hres_response (serve app q r s))"
    using g [of "log_at levelInfo ''request''
        [str_attr ''method'' (rq_method r), str_attr ''path'' (maskTokenInPath (rq_path r)),
         str_attr ''remote'' (rq_remote r)] s"]
      guarded_write_header [OF \<open>guarded security_headers (set_headers _ _)\<close>, of 418]
    by (auto simp: serve_def middleware_def Let_def split: hres.splits)
  thus ?thesis using assms(2) by (auto simp: guarded_sent serve_def middleware_def Let_def split: hres.splits)
qed

theorem responses_guarded_witness:
  "sent_header (hres_response (serve demo_app demo_req_env demo_page (demo_server (newRateLimiter 20 10 False 1))))
     ''X-Frame-Options'' = Some ''DENY''"
  by (rule responses_guarded [OF demo_static_ok, THEN conjunct1]) (simp add: security_headers_def)

text \<open>C4: The tables stay sound for ever. Over any sequence of requests, clean-up and eviction
  ticks and log inserts, with any outcomes of the statements, tokens and ids stay unique,
  events stay of the three known types, and no stored ciphertext exceeds the limit.\<close>

theorem server_keeps_tables:
  assumes "static_ok app" "db_ok (w_db s)" "sized (ph_maxBytes (ap_handler app)) (w_db s)"
  shows "db_ok (w_db (server_run app evs s)) \<and>
    sized (ph_maxBytes (ap_handler app)) (w_db (server_run app evs s))"
  using integrity.J_run [OF assms(1) refl refl assms(2)] sizes.J_run [OF assms(1) refl refl assms(3)]
  by blast

theorem server_keeps_tables_witness:
  "db_ok (w_db (server_run demo_app [Request demo_req_env demo_post, CleanupTick \<lparr>cl_delete = acked 200, cl_event = acked 200\<rparr>,
       Request demo_req_env demo_reveal_post] (demo_server (newRateLimiter 20 10 False 1)))) \<and>
   sized 100 (w_db (server_run demo_app [Request demo_req_env demo_post, CleanupTick \<lparr>cl_delete = acked 200, cl_event = acked 200\<rparr>,
       Request demo_req_env demo_reveal_post] (demo_server (newRateLimiter 20 10 False 1))))"
proof -
  let ?s = "demo_server (newRateLimiter 20 10 False 1)"
  have m: "ph_maxBytes (ap_handler demo_app) = 100" by (simp add: demo_app_def)
  have "db_ok (w_db ?s)" "sized (ph_maxBytes (ap_handler demo_app)) (w_db ?s)"
    by (simp_all add: demo_server_def demo_row_def empty_db_def db_ok_def sized_def demo_app_def)
  from server_keeps_tables [OF demo_static_ok this] show ?thesis unfolding m by blast
qed

text \<open>C3: Only the POST that asks for it consumes a secret. A request that is not a POST, such as
  the GET of a link preview on the page of the secret, leaves the database as it is; and no
  request at all removes a secret unless it is routed to the reveal of its token.\<close>

theorem only_reveal_consumes:
  assumes "static_ok app"
  shows "(rq_method r \<noteq> ''POST'' \<longrightarrow> w_db (hres_world (serve app q r s)) = w_db s) \<and>
    (\<forall>x. x \<in> set (secrets (w_db s)) \<and> x \<notin> set (secrets (w_db (hres_world (serve app q r s)))) \<longrightarrow>
      rq_method r = ''POST'' \<and> route_of r = RReveal (s_token x))"
proof (intro conjI allI impI)
  assume "rq_method r \<noteq> ''POST''"
  hence "route_of r \<noteq> RCreate" "route_of r \<noteq> RClearLogs" "route_of r \<noteq> RReveal t" for t
    using route_post [of r] by auto
  hence "keeps (\<lambda>s'. w_db s' = w_db s) (serve_route app q (route_of r)) r"
    using keeps_db_route [OF assms, where J = "\<lambda>d. d = w_db s"] by blast
  from on_db.keeps_serve [of "\<lambda>d. d = w_db s", OF this] show "w_db (hres_world (serve app q r s)) = w_db s"
    by simp
next
  fix x assume x: "x \<in> set (secrets (w_db s)) \<and> x \<notin> set (secrets (w_db (hres_world (serve app q r s))))"
  have "keeps (\<lambda>s'. x \<in> set (secrets (w_db s'))) (serve_route app q (route_of r)) r"
    if "route_of r \<noteq> RReveal (s_token x)"
  proof (rule keeps_db_route [OF assms, where J = "\<lambda>d. x \<in> set (secrets d)"])
    show "keeps (\<lambda>s. x \<in> set (secrets (w_db s))) (createHandler (we_uc (ap_web app)) (ap_tz app)
        (ap_extText app) (ph_maxBytes (ap_handler app)) (q_create q)) r"
      by (rule keeps_create_row)
    show "keeps (\<lambda>s. x \<in> set (secrets (w_db s))) (revealHandler (ap_extText app) (q_reveal q)) (r\<lparr>rq_token := t\<rparr>)"
      if "route_of r = RReveal t" for t
      using that \<open>route_of r \<noteq> RReveal (s_token x)\<close>
      by (auto simp: keeps_def reveal_world fetch_secrets split: outcome.splits)
    show "keeps (\<lambda>s. x \<in> set (secrets (w_db s))) (clearLogs (ap_execAdmin app) (ap_extText app)
        (ap_parseHost app) (ap_web app) (ap_admin app) (q_clear q)) r"
      by (simp add: keeps_def frame_simps)
  qed
  from on_db.keeps_serve [of "\<lambda>d. x \<in> set (secrets d)", OF this] x
  have "route_of r = RReveal (s_token x)" by blast
  thus "rq_method r = ''POST''" "route_of r = RReveal (s_token x)" using route_post [of r] by auto
qed

theorem only_reveal_consumes_witness:
  "w_db (hres_world (serve demo_app demo_req_env demo_page (demo_server (newRateLimiter 20 10 False 1)))) =
   w_db (demo_server (newRateLimiter 20 10 False 1))"
  using only_reveal_consumes [OF demo_static_ok, of demo_page] by (simp add: demo_page_def demo_get_def)

lemma demo_reveal_request:
  "list_all is_hex ''07''" "rq_method demo_reveal_post = ''POST''"
  "rq_path demo_reveal_post = ''/s/'' @ ''07'' @ ''/reveal''"
  "rq_escaped demo_reveal_post = ''/s/'' @ ''07'' @ ''/reveal''"
  by (simp_all add: is_hex_def demo_reveal_post_def demo_get_def)

text \<open>C5: A reveal through the whole stack. A POST to the reveal URL of a token that gets past its
  rate limiter does to the database exactly what FetchAndDelete of that token does. The
  answer is 200 with a body from which the browser reads the stored ciphertext and nonce,
  404 for a missing, consumed or expired secret, and 500 for a database error.\<close>

theorem reveal_through_stack:
  assumes "list_all is_hex tok" "tok \<noteq> []" "rq_method r = ''POST''"
    and "rq_path r = ''/s/'' @ tok @ ''/reveal''" "rq_escaped r = ''/s/'' @ tok @ ''/reveal''"
    and "rl_rate (sv_reveal s) = 0 \<or> snd (take_token (ap_newL app) (ap_allow app) (q_now q)
      (clientIP (ap_parseIP app) (sv_reveal s) r) (sv_reveal s))"
  shows "w_db (hres_world (serve app q r s)) = fst (fetchAndDelete (re_fetch (q_reveal q)) tok (w_db s)) \<and>
    (case snd (fetchAndDelete (re_fetch (q_reveal q)) tok (w_db s)) of
       Inr x \<Rightarrow> status_of (hres_response (serve app q r s)) = 200 \<and>
         client_reads (rs_body (hres_response (serve app q r s))) = Some (s_ciphertext x, s_nonce x)
     | Inl e \<Rightarrow> status_of (hres_response (serve app q r s)) = (if e = ErrNotFound then 404 else 500))"
proof -
  let ?r = "r\<lparr>rq_token := tok\<rparr>" and ?rw = "set_headers security_headers new_response"
  obtain s' where mw: "serve app q r s = (case limit_reveal app q (revealHandler (ap_extText app) (q_reveal q)) ?r
        (request_logged r s) ?rw of
      Done w' rw' \<Rightarrow> Done w' rw' | Panicked w' rw' p \<Rightarrow> s' w' rw' p)"
    using serve_reveal [OF assms(1-5)] by blast
  have rw: "rs_status ?rw = None" "rs_body ?rw = []"
    by (simp_all add: set_headers_def security_headers_def new_response_def)
  obtain s2 where lim: "limit_reveal app q (revealHandler (ap_extText app) (q_reveal q)) ?r (request_logged r s) ?rw =
      revealHandler (ap_extText app) (q_reveal q) ?r s2 ?rw" and db: "w_db s2 = w_db s"
    using limit_reveal_passes [OF assms(6)] by blast
  note rr = reveal_result [OF rw refl, of "ap_extText app" "q_reveal q" ?r s2]
  hence "serve app q r s = revealHandler (ap_extText app) (q_reveal q) ?r s2 ?rw"
    unfolding mw lim by (auto split: hres.splits)
  with rr db show ?thesis by (auto split: sum.splits)
qed

theorem reveal_through_stack_witness:
  "status_of (hres_response (serve demo_app demo_req_env demo_reveal_post (demo_server (newRateLimiter 0 10 False 1)))) = 200 \<and>
   client_reads (rs_body (hres_response (serve demo_app demo_req_env demo_reveal_post
     (demo_server (newRateLimiter 0 10 False 1))))) = Some ([1, 2], [3])"
proof -
  let ?s = "demo_server (newRateLimiter 0 10 False 1)"
  have "rl_rate (sv_reveal ?s) = 0" by (simp add: demo_server_def newRateLimiter_def)
  moreover have "snd (fetchAndDelete (re_fetch (q_reveal demo_req_env)) ''07'' (w_db ?s)) = Inr demo_row"
    by (simp add: fetch_result demo_req_env_def acked_def demo_server_def demo_row_def unexpired_def empty_db_def)
  ultimately show ?thesis
    using reveal_through_stack [OF demo_reveal_request(1) _ demo_reveal_request(2-4), of ?s demo_app demo_req_env]
    by (simp add: demo_row_def)
qed

text \<open>
  A refused reveal gives the token away in the log. When the reveal tier is out of tokens for
  the client, the answer is 429 and the secret stays, but two records are logged: the request
  with the token masked, and a warning with the path as it came, token included.
\<close>

definition refusal_record :: "string \<Rightarrow> request \<Rightarrow> slog_record" where
  "refusal_record ip r = \<lparr>rc_time = None, rc_level = levelWarn, rc_msg = ''rate limit exceeded'',
     rc_attrs = [str_attr ''ip'' ip, str_attr ''path'' (rq_path r), str_attr ''method'' (rq_method r)]\<rparr>"

definition masked_record :: "string \<Rightarrow> request \<Rightarrow> slog_record" where
  "masked_record path r = \<lparr>rc_time = None, rc_level = levelInfo, rc_msg = ''request'',
     rc_attrs = [str_attr ''method'' (rq_method r), str_attr ''path'' path, str_attr ''remote'' (rq_remote r)]\<rparr>"

lemma refused_reveal_logs_token:
  assumes "list_all is_hex tok" "tok \<noteq> []" "rq_method r = ''POST''"
    and "rq_path r = ''/s/'' @ tok @ ''/reveal''" "rq_escaped r = ''/s/'' @ tok @ ''/reveal''"
    and "rl_rate (sv_reveal s) \<noteq> 0" "\<not> snd (take_token (ap_newL app) (ap_allow app) (q_now q)
      (clientIP (ap_parseIP app) (sv_reveal s) r) (sv_reveal s))"
  shows "w_db (hres_world (serve app q r s)) = w_db s"
    "status_of (hres_response (serve app q r s)) = 429"
    "w_logs (hres_world (serve app q r s)) =
      w_logs s @ [masked_record ''/s/[token]/reveal'' r, refusal_record (clientIP (ap_parseIP app) (sv_reveal s) r) r]"
proof -
  let ?r = "r\<lparr>rq_token := tok\<rparr>" and ?rw = "set_headers security_headers new_response"
  obtain h where mw: "serve app q r s = (case limit_reveal app q (revealHandler (ap_extText app) (q_reveal q)) ?r
        (request_logged r s) ?rw of
      Done w' rw' \<Rightarrow> Done w' rw' | Panicked w' rw' p \<Rightarrow> h w' rw' p)"
    using serve_reveal [OF assms(1-5)] by blast
  have rw: "rs_status ?rw = None"
    by (simp add: set_headers_def security_headers_def new_response_def)
  obtain l where lim: "limit_reveal app q (revealHandler (ap_extText app) (q_reveal q)) ?r (request_logged r s) ?rw =
      Done (log_at levelWarn ''rate limit exceeded''
              [str_attr ''ip'' (clientIP (ap_parseIP app) (sv_reveal s) r), str_attr ''path'' (rq_path r),
               str_attr ''method'' (rq_method r)] (request_logged r s\<lparr>sv_reveal := l\<rparr>))
        (http_error ''too many requests'' 429
          (set_header ''Retry-After'' (retryAfterSeconds (rl_perMinute (sv_reveal s))) ?rw))"
    using limit_reveal_refuses [OF assms(6,7)] by blast
  have "tok \<noteq> [] \<and> CHR ''/'' \<notin> set tok" using hex_ascii [OF assms(1)] assms(2) by simp
  hence "maskTokenInPath (rq_path r) = ''/s/[token]/reveal''"
    using mask_token [of tok "''/reveal''"] assms(4) by simp
  note facts = this rw assms(4)
  show "w_db (hres_world (serve app q r s)) = w_db s" "status_of (hres_response (serve app q r s)) = 429"
    unfolding mw lim using facts by (simp_all add: status_simps request_logged_def log_at_def)
  show "w_logs (hres_world (serve app q r s)) =
      w_logs s @ [masked_record ''/s/[token]/reveal'' r, refusal_record (clientIP (ap_parseIP app) (sv_reveal s) r) r]"
    unfolding mw lim using facts
    by (simp add: status_simps request_logged_def log_at_def masked_record_def refusal_record_def)
qed

end
