(* ===== verification/Pipeline.thy ===== *)
theory Pipeline
  imports Server
begin

text \<open>
  From a request to the log table: the records that the handlers of theory Server emit go
  through the fan-out logger that main builds (theory Logger), the buffered channel, and the
  writer goroutine of internal/logger/db_handler.go, which inserts them into app_logs. Here the
  three run one after the other; their interleaving is the subject of theory LogQueue.
\<close>

section \<open>The logger of the running server\<close>

text \<open>slog.New(NewMultiHandler(jsonHandler, dbHandler)) with the two levels of the configuration.\<close>

definition app_logger :: "('t, 'u, 'l) started \<Rightarrow> log_handler" where
  "app_logger st = MultiHandler [StdoutHandler (st_stdout st) [], DbHandler (new_db_handler (st_dblog st))]"

text \<open>The records of one request, logged in order; record number \<open>k\<close> at time \<open>nows k\<close>.\<close>

fun log_all :: "(nat \<Rightarrow> gotime) \<Rightarrow> nat \<Rightarrow> log_handler \<Rightarrow> slog_record list \<Rightarrow> log_io \<Rightarrow> log_io option" where
  "log_all nows k h [] io = Some io"
| "log_all nows k h (r # rs) io =
     (case logger_log (nows k) h r io of
        None \<Rightarrow> None
      | Some io' \<Rightarrow> log_all nows (Suc k) h rs io')"

text \<open>The loop of run over the closed channel: every queued record is inserted.\<close>

fun drain :: "(nat \<Rightarrow> outcome) \<Rightarrow> nat \<Rightarrow> db_record list \<Rightarrow> database \<Rightarrow> database" where
  "drain outs k [] db = db"
| "drain outs k (rec # q) db = drain outs (Suc k) q (insert_record True (outs k) rec db)"

section \<open>What arrives\<close>

definition open_queue :: "shared_stop \<Rightarrow> bool" where
  "open_queue ss \<longleftrightarrow> \<not> ss_stopped ss \<and> \<not> ss_closed ss"

lemma logger_log_two:
  assumes "open_queue (io_shared io)"
  shows "logger_log now (MultiHandler [StdoutHandler lv goas, DbHandler h]) r io =
    Some \<lparr>io_stdout = io_stdout io @ (if rc_level r \<ge> lv then [(goas, r)] else []),
      io_shared = (if rc_level r \<ge> dh_min h \<and> length (ss_queue (io_shared io)) < bufferSize
         then (io_shared io)\<lparr>ss_queue := ss_queue (io_shared io) @ [build_record h now r]\<rparr>
         else io_shared io)\<rparr>"
  using assms fanout_delivers [of io] by (simp add: open_queue_def)

definition db_records :: "db_handler \<Rightarrow> (nat \<Rightarrow> gotime) \<Rightarrow> nat \<Rightarrow> slog_record list \<Rightarrow> db_record list" where
  "db_records h nows k rs =
     map (\<lambda>(k, r). build_record h (nows k) r) (filter (\<lambda>(k, r). rc_level r \<ge> dh_min h) (enumerate k rs))"

lemma db_records_simps [simp]:
  "db_records h nows k [] = []"
  "db_records h nows k (r # rs) =
    (if rc_level r \<ge> dh_min h then [build_record h (nows k) r] else []) @ db_records h nows (Suc k) rs"
  by (simp_all add: db_records_def)

lemma log_all_two:
  assumes "open_queue (io_shared io)" "length (ss_queue (io_shared io)) \<le> bufferSize"
  shows "log_all nows k (MultiHandler [StdoutHandler lv goas, DbHandler h]) rs io =
    Some \<lparr>io_stdout = io_stdout io @ map (Pair goas) (filter (\<lambda>r. rc_level r \<ge> lv) rs),
      io_shared = (io_shared io)\<lparr>ss_queue := take bufferSize (ss_queue (io_shared io) @ db_records h nows k rs)\<rparr>\<rparr>"
  using assms
proof (induction rs arbitrary: k io)
  case Nil
  thus ?case by (cases io) simp
next
  case (Cons r rs)
  let ?io' = "\<lparr>io_stdout = io_stdout io @ (if rc_level r \<ge> lv then [(goas, r)] else []),
      io_shared = (if rc_level r \<ge> dh_min h \<and> length (ss_queue (io_shared io)) < bufferSize
         then (io_shared io)\<lparr>ss_queue := ss_queue (io_shared io) @ [build_record h (nows k) r]\<rparr>
         else io_shared io)\<rparr>"
  have "open_queue (io_shared ?io')" "length (ss_queue (io_shared ?io')) \<le> bufferSize"
    using Cons.prems by (auto simp: open_queue_def)
  note IH = Cons.IH [OF this, of "Suc k"]
  show ?case
    unfolding log_all.simps logger_log_two [OF Cons.prems(1)] option.case IH
    using Cons.prems(2) by (cases "length (ss_queue (io_shared io)) < bufferSize") auto
qed

definition row_of :: "db_record \<Rightarrow> gotime \<times> string \<times> string \<times> string option" where
  "row_of rec = (dr_ts rec, dr_level rec, dr_msg rec,
     if dr_attrs rec \<noteq> [] then Some (marshal_attrs (dr_attrs rec)) else None)"

definition rows_in :: "database \<Rightarrow> (gotime \<times> string \<times> string \<times> string option) list" where
  "rows_in db = map (\<lambda>l. (lg_ts l, lg_level l, lg_msg l, lg_attrs l)) (app_logs db)"

lemma insert_rows: "rows_in (insert_record True Applied rec db) = rows_in db @ [row_of rec]"
  by (simp add: insert_record_def exec_stmt_Applied sql_insert_log_def rows_in_def row_of_def)

lemma drain_rows: "(\<And>k. outs k = Applied) \<Longrightarrow> rows_in (drain outs k q db) = rows_in db @ map row_of q"
  by (induction q arbitrary: k db) (simp_all add: insert_rows)

lemma drain_secrets: "secrets (drain outs k q db) = secrets db"
  by (induction q arbitrary: k db) (simp_all add: insert_record_frame)

section \<open>The attributes in the table\<close>

lemma join_contains: "x \<in> set xs \<Longrightarrow> \<exists>pre post. join_with sep xs = pre @ x @ post"
proof (induction sep xs rule: join_with.induct)
  case (2 sep p)
  thus ?case by (intro exI [of _ "[]"]) simp
next
  case (3 sep p q ps)
  show ?case
  proof (cases "x = p")
    case True
    thus ?thesis by (intro exI [of _ "[]"] exI [of _ "sep @ join_with sep (q # ps)"]) simp
  next
    case False
    with 3 obtain pre post where "join_with sep (q # ps) = pre @ x @ post" by auto
    thus ?thesis by (intro exI [of _ "p @ sep @ pre"] exI [of _ post]) simp
  qed
qed simp

lemma marshal_contains:
  assumes "(k, AnyStr v) \<in> set m" "list_all json_safe v"
  shows "\<exists>pre post. marshal_attrs m = pre @ v @ post"
proof -
  let ?f = "\<lambda>(k, v). json_quote k @ '':'' @ marshal_any v"
  have "?f (k, AnyStr v) \<in> set (map ?f (sort_key fst m))" using assms(1) by (auto simp: rev_image_eqI)
  from join_contains [OF this, of "'',''"] obtain pre post where
    "join_with '','' (map ?f (sort_key fst m)) = pre @ (json_quote k @ '':'' @ json_quote v) @ post" by auto
  hence "marshal_attrs m = (''{'' @ pre @ json_quote k @ '':'' @ ''\"'') @ v @ (''\"'' @ post @ ''}'')"
    by (simp add: marshal_attrs_def json_quote_safe [OF assms(2)])
  thus ?thesis by blast
qed

lemma resolve_plain: "resolve (VAny x) = VAny x"
proof -
  have "(100 :: nat) = Suc 99" by simp
  thus ?thesis unfolding resolve_def by (simp only: resolve_rounds.simps)
qed

lemma refusal_attrs:
  "dr_attrs (build_record (new_db_handler lv) now (refusal_record ip r)) =
    [(''ip'', AnyStr ip), (''path'', AnyStr (rq_path r)), (''method'', AnyStr (rq_method r))]"
  by (simp add: build_record_def new_db_handler_def refusal_record_def resolveAttr.simps resolve_plain qualify_def)

section \<open>Properties\<close>


definition demo_io :: log_io where
  "demo_io = \<lparr>io_stdout = [], io_shared = new_shared\<rparr>"

lemma demo_io: "open_queue (io_shared demo_io)" "ss_queue (io_shared demo_io) = []"
  by (simp_all add: demo_io_def open_queue_def new_shared_def)


text \<open>C35: A refused reveal puts the token into the log table. When the reveal tier turns a
  client away with 429, the secret stays; but with the database log level at its default, or
  lower, a row of level WARN ends up in app_logs, shown by the admin pages, whose attributes
  contain the path with the token, with which the secret can be fetched.\<close>

theorem refused_reveal_exposes_token:
  assumes "list_all is_hex tok" "tok \<noteq> []" "rq_method r = ''POST''"
    and "rq_path r = ''/s/'' @ tok @ ''/reveal''" "rq_escaped r = ''/s/'' @ tok @ ''/reveal''"
    and "rl_rate (sv_reveal s) \<noteq> 0" "\<not> snd (take_token (ap_newL app) (ap_allow app) (q_now q)
      (clientIP (ap_parseIP app) (sv_reveal s) r) (sv_reveal s))"
    and "st_dblog st \<le> levelWarn" "w_logs s = []"
    and "open_queue (io_shared io)" "ss_queue (io_shared io) = []" "\<And>k. outs k = Applied"
  shows "status_of (hres_response (serve app q r s)) = 429 \<and>
    (\<exists>io' row pre post. log_all nows 0 (app_logger st) (w_logs (hres_world (serve app q r s))) io = Some io' \<and>
      row \<in> set (app_logs (drain outs 0 (ss_queue (io_shared io')) (w_db (hres_world (serve app q r s))))) \<and>
      lg_level row = ''WARN'' \<and> lg_attrs row = Some (pre @ ''/s/'' @ tok @ ''/reveal'' @ post)) \<and>
    secrets (w_db (hres_world (serve app q r s))) = secrets (w_db s)"
proof -
  note refused = refused_reveal_logs_token [OF assms(1-7)]
  let ?s = "hres_world (serve app q r s)" and ?h = "new_db_handler (st_dblog st)"
  let ?ref = "refusal_record (clientIP (ap_parseIP app) (sv_reveal s) r) r"
  let ?rec = "build_record ?h (nows 1) ?ref"
  have logs: "w_logs ?s = [masked_record ''/s/[token]/reveal'' r, ?ref]" using refused(3) assms(9) by simp
  have "length (ss_queue (io_shared io)) \<le> bufferSize" using assms(11) by simp
  from log_all_two [OF assms(10) this, of nows 0 "st_stdout st" "[]" ?h "w_logs ?s"]
  obtain io' where io': "log_all nows 0 (app_logger st) (w_logs ?s) io = Some io'"
    "ss_queue (io_shared io') = take bufferSize (db_records ?h nows 0 (w_logs ?s))"
    using assms(11) by (auto simp: app_logger_def)
  have "?rec \<in> set (ss_queue (io_shared io'))"
    unfolding io'(2) logs using assms(8)
    by (auto simp: bufferSize_def new_db_handler_def refusal_record_def)
  hence "row_of ?rec \<in> set (rows_in (drain outs 0 (ss_queue (io_shared io')) (w_db ?s)))"
    by (simp add: drain_rows [OF assms(12)])
  then obtain row where row: "row \<in> set (app_logs (drain outs 0 (ss_queue (io_shared io')) (w_db ?s)))"
    "(lg_ts row, lg_level row, lg_msg row, lg_attrs row) = row_of ?rec"
    by (auto simp: rows_in_def)
  have "list_all json_safe (rq_path r)" using assms(1,4) safe_hex by (auto simp: list_all_iff json_safe_def)
  from marshal_contains [OF _ this, of "''path''" "dr_attrs ?rec"] obtain pre post where
    "marshal_attrs (dr_attrs ?rec) = pre @ rq_path r @ post" by (auto simp: refusal_attrs)
  hence "lg_attrs row = Some (pre @ ''/s/'' @ tok @ ''/reveal'' @ post)"
    using row(2) assms(4) by (auto simp: row_of_def refusal_attrs)
  moreover have "lg_level row = ''WARN''"
    using row(2) by (simp add: row_of_def build_record_def refusal_record_def level_string_def level_base_def level_simps)
  ultimately show ?thesis using refused(1,2) io'(1) row(1) by auto
qed

lemma demo_dblog: "st_dblog demo_started = levelWarn"
  by (simp add: demo_started_def main_start_def demo_main_def connect_def migrate_cases newHandler_def
      parseTemplates_def newAdminHandler_def parseAdminTemplates_def Let_def parseLogLevel_def load_def getEnv_def)

theorem refused_reveal_exposes_token_witness:
  "\<exists>io' row pre post. log_all (\<lambda>_. 0) 0 (app_logger demo_started)
      (w_logs (hres_world (serve demo_app demo_req_env demo_reveal_post
        (demo_server (newRateLimiter 20 0 False 1))))) demo_io = Some io' \<and>
    row \<in> set (app_logs (drain (\<lambda>_. Applied) 0 (ss_queue (io_shared io'))
      (w_db (hres_world (serve demo_app demo_req_env demo_reveal_post (demo_server (newRateLimiter 20 0 False 1))))))) \<and>
    lg_level row = ''WARN'' \<and> lg_attrs row = Some (pre @ ''/s/'' @ ''07'' @ ''/reveal'' @ post)"
proof -
  let ?s = "demo_server (newRateLimiter 20 0 False 1)"
  have "rl_rate (sv_reveal ?s) \<noteq> 0" by (simp add: demo_server_def newRateLimiter_def)
  moreover have "\<not> snd (take_token (ap_newL demo_app) (ap_allow demo_app) (q_now demo_req_env)
      (clientIP (ap_parseIP demo_app) (sv_reveal ?s) demo_reveal_post) (sv_reveal ?s))"
    by (simp add: take_token_def getLimiter_def Let_def demo_server_def newRateLimiter_def demo_app_def
        demo_req_env_def exact_new_def split: prod.splits)
  moreover have "st_dblog demo_started \<le> levelWarn" by (simp add: demo_dblog)
  moreover have "w_logs ?s = []" by (simp add: demo_server_def)
  ultimately show ?thesis
    using refused_reveal_exposes_token [OF demo_reveal_request(1) _ demo_reveal_request(2-4), where s = ?s
      and app = demo_app and q = demo_req_env and st = demo_started and io = demo_io
      and outs = "\<lambda>_. Applied" and nows = "\<lambda>_. 0"] demo_io by blast
qed

end
