(* ===== verification/Redact.thy ===== *)
theory Redact
  imports Config "HOL-Library.Monad_Syntax"
begin

text \<open>
  kvDSNRedact of internal/config/config.go as the code has it: an outer loop over an index into
  the string and a growing result, with four inner loops. Every loop is a partial function, so
  that not returning is the value \<open>None\<close>; a result \<open>Some None\<close> is the panic of a slice past the
  end. The loops are shown to return on every input, and to compute the function over the
  remaining string of theory Config.
\<close>

section \<open>The loops\<close>

definition slice :: "string \<Rightarrow> nat \<Rightarrow> nat \<Rightarrow> string" where
  "slice s i j = take (j - i) (drop i s)"

partial_function (option) skip_blanks :: "string \<Rightarrow> nat \<Rightarrow> string \<Rightarrow> (nat \<times> string) option" where
  "skip_blanks dsn i res =
     (if i < length dsn \<and> dsn ! i = CHR '' '' then skip_blanks dsn (i + 1) (res @ [dsn ! i])
      else Some (i, res))"

partial_function (option) scan_key :: "string \<Rightarrow> nat \<Rightarrow> nat option" where
  "scan_key dsn i =
     (if i < length dsn \<and> dsn ! i \<noteq> CHR ''='' \<and> dsn ! i \<noteq> CHR '' '' then scan_key dsn (i + 1)
      else Some i)"

partial_function (option) scan_quoted :: "string \<Rightarrow> nat \<Rightarrow> nat option" where
  "scan_quoted dsn end =
     (if end < length dsn \<and> dsn ! end \<noteq> quote then
        scan_quoted dsn ((if dsn ! end = backslash then end + 1 else end) + 1)
      else Some end)"

partial_function (option) scan_plain :: "string \<Rightarrow> nat \<Rightarrow> nat option" where
  "scan_plain dsn end =
     (if end < length dsn \<and> dsn ! end \<noteq> CHR '' '' then scan_plain dsn (end + 1) else Some end)"

partial_function (option) redact_loop :: "string \<Rightarrow> nat \<Rightarrow> string \<Rightarrow> string option option" where
  "redact_loop dsn i res =
     (if \<not> i < length dsn then Some (Some res)
      else do {
        (keyStart, res) \<leftarrow> skip_blanks dsn i res;
        i \<leftarrow> scan_key dsn keyStart;
        let key = slice dsn keyStart i;
        if length dsn \<le> i \<or> dsn ! i \<noteq> CHR ''='' then redact_loop dsn i (res @ key)
        else do {
          let res = res @ key @ ''='';
          let i = i + 1;
          let sensitive = (key = ''password'' \<or> key = ''passfile'');
          if i < length dsn \<and> dsn ! i = quote then do {
            end \<leftarrow> scan_quoted dsn (i + 1);
            let end = (if end < length dsn then end + 1 else end);
            if sensitive then redact_loop dsn end (res @ [quote] @ ''xxxxx'' @ [quote])
            else if length dsn < end then Some None
            else redact_loop dsn end (res @ slice dsn i end)
          }
          else do {
            end \<leftarrow> scan_plain dsn i;
            if sensitive then redact_loop dsn end (res @ ''xxxxx'')
            else redact_loop dsn end (res @ slice dsn i end)
          }
        }
      })"

section \<open>The inner loops return\<close>

lemma drop_step: "i < length s \<Longrightarrow> drop i s = s ! i # drop (Suc i) s"
  by (simp add: Cons_nth_drop_Suc)

lemma skip_blanks_returns:
  "skip_blanks dsn i res = Some (i + length (takeWhile (\<lambda>c. c = CHR '' '') (drop i dsn)),
     res @ takeWhile (\<lambda>c. c = CHR '' '') (drop i dsn))"
proof (induction "length dsn - i" arbitrary: i res)
  case 0
  then show ?case by (subst skip_blanks.simps) simp
next
  case (Suc n)
  then have "i < length dsn" "n = length dsn - (i + 1)" by simp_all
  with Suc.hyps(1) [of "i + 1"] show ?case by (subst skip_blanks.simps) (simp add: drop_step)
qed

lemma scan_key_returns:
  "scan_key dsn i = Some (i + length (takeWhile (\<lambda>c. c \<noteq> CHR ''='' \<and> c \<noteq> CHR '' '') (drop i dsn)))"
proof (induction "length dsn - i" arbitrary: i)
  case 0
  then show ?case by (subst scan_key.simps) simp
next
  case (Suc n)
  then have "i < length dsn" "n = length dsn - (i + 1)" by simp_all
  with Suc.hyps(1) [of "i + 1"] show ?case by (subst scan_key.simps) (simp add: drop_step)
qed

lemma scan_plain_returns:
  "scan_plain dsn i = Some (i + length (takeWhile (\<lambda>c. c \<noteq> CHR '' '') (drop i dsn)))"
proof (induction "length dsn - i" arbitrary: i)
  case 0
  then show ?case by (subst scan_plain.simps) simp
next
  case (Suc n)
  then have "i < length dsn" "n = length dsn - (i + 1)" by simp_all
  with Suc.hyps(1) [of "i + 1"] show ?case by (subst scan_plain.simps) (simp add: drop_step)
qed

lemma scan_quoted_returns: "scan_quoted dsn i = Some (i + quoted_len (drop i dsn))"
proof (induction "length dsn - i" arbitrary: i rule: less_induct)
  case less
  show ?case
  proof (cases "i < length dsn")
    case False
    then show ?thesis by (subst scan_quoted.simps) simp
  next
    case True
    then have "scan_quoted dsn (i + 1) = Some (i + 1 + quoted_len (drop (i + 1) dsn))"
      "scan_quoted dsn (i + 2) = Some (i + 2 + quoted_len (drop (i + 2) dsn))"
      using less by simp_all
    moreover have "quoted_len (drop (i + 2) dsn) = (case drop (i + 1) dsn of [] \<Rightarrow> 0 | d # ds \<Rightarrow> quoted_len ds)"
      by (cases "i + 1 < length dsn") (simp_all add: drop_step)
    ultimately show ?thesis
      using True by (subst scan_quoted.simps) (auto simp: drop_step split: list.split)
  qed
qed

section \<open>The outer loop\<close>

lemma slice_take: "slice s i (i + n) = take n (drop i s)"
  by (simp add: slice_def)

lemma take_takeWhile_length: "take (length (takeWhile P s)) s = takeWhile P s"
  by (metis takeWhile_eq_take)

lemma redact_loop_returns:
  "redact_loop dsn i res = Some (map_option (\<lambda>r. res @ r) (kvDSNRedact (drop i dsn)))"
proof (induction "length dsn - i" arbitrary: i res rule: less_induct)
  case less
  let ?s = "drop i dsn"
  show ?case
  proof (cases "i < length dsn")
    case False
    then show ?thesis by (subst redact_loop.simps) (simp add: kvDSNRedact.simps)
  next
    case True
    define sp where "sp = takeWhile (\<lambda>c. c = CHR '' '') ?s"
    define s1 where "s1 = dropWhile (\<lambda>c. c = CHR '' '') ?s"
    define key where "key = takeWhile (\<lambda>c. c \<noteq> CHR ''='' \<and> c \<noteq> CHR '' '') s1"
    define s2 where "s2 = drop (length key) s1"
    define k where "k = i + length sp"
    define j where "j = k + length key"
    have s1: "s1 = drop k dsn" by (simp add: s1_def k_def sp_def dropWhile_eq_drop add.commute)
    have s2: "s2 = drop j dsn" by (simp add: s2_def s1 j_def add.commute)
    have sk: "skip_blanks dsn i res = Some (k, res @ sp)"
      by (simp add: skip_blanks_returns k_def sp_def)
    have sc: "scan_key dsn k = Some j"
      by (simp add: scan_key_returns j_def key_def s1)
    have ke: "slice dsn k j = key"
      unfolding j_def slice_take s1 [symmetric] by (simp add: key_def take_takeWhile_length)
    have ne: "?s \<noteq> []" using True by simp
    show ?thesis
    proof (cases "j < length dsn")
      case False
      then have "s2 = []" by (simp add: s2)
      then have "kvDSNRedact ?s = Some (sp @ key)"
        using ne by (subst kvDSNRedact.simps) (simp add: Let_def flip: sp_def s1_def key_def s2_def)
      moreover have "redact_loop dsn j ((res @ sp) @ key) = Some (Some ((res @ sp) @ key))"
        using False by (subst redact_loop.simps) simp
      ultimately show ?thesis
        using True False by (subst redact_loop.simps) (simp add: sk sc ke)
    next
      case j: True
      then have c: "s2 = dsn ! j # drop (j + 1) dsn" by (simp add: s2 drop_step)
      show ?thesis
      proof (cases "dsn ! j = CHR ''=''")
        case False
        have "length s2 < length ?s"
          using key_progress(2) [of s1 "dsn ! j" "drop (j + 1) dsn" ?s] False c
          unfolding key_def [symmetric] s2_def [symmetric] s1_def [symmetric] by simp
        hence "length dsn - j < length dsn - i" by (simp add: s2)
        from less [OF this, of "(res @ sp) @ key"] have "redact_loop dsn j ((res @ sp) @ key) =
            Some (map_option (\<lambda>r. ((res @ sp) @ key) @ r) (kvDSNRedact s2))" unfolding s2 .
        moreover have "kvDSNRedact ?s = map_option (\<lambda>r. sp @ key @ r) (kvDSNRedact s2)"
          using ne c False
          by (subst kvDSNRedact.simps) (simp add: Let_def flip: sp_def s1_def key_def s2_def)
        ultimately show ?thesis
          using True j False
          by (subst redact_loop.simps) (cases "kvDSNRedact (drop j dsn)"; simp add: sk sc ke s2 Let_def)
      next
        case eq: True
        define v where "v = drop (j + 1) dsn"
        define out where "out = res @ sp @ key @ ''=''"
        have kv: "kvDSNRedact ?s = (case redact_value key v of None \<Rightarrow> None
            | Some (w, rest) \<Rightarrow> map_option (\<lambda>r. sp @ key @ ''='' @ w @ r) (kvDSNRedact rest))"
          using ne c eq
          by (subst kvDSNRedact.simps)
            (auto simp: Let_def v_def simp flip: sp_def s1_def key_def s2_def split: option.split)
        have cont: "redact_loop dsn (j + 1 + m) (out @ w) =
            Some (map_option (\<lambda>r. res @ r) (map_option (\<lambda>r. sp @ key @ ''='' @ w @ r) (kvDSNRedact (drop m v))))"
          for m w
        proof -
          have "length dsn - (j + 1 + m) < length dsn - i" using True by (simp add: j_def k_def)
          from less [OF this, of "out @ w"] show ?thesis
            by (cases "kvDSNRedact (drop m v)") (simp_all add: out_def v_def add.commute)
        qed
        have loop: "redact_loop dsn i res =
          (if v \<noteq> [] \<and> hd v = quote then
             (let n = Suc (quoted_len (tl v)); n' = (if n < length v then Suc n else n) in
              if sensitive_key key then redact_loop dsn (j + 1 + n') (out @ [quote] @ ''xxxxx'' @ [quote])
              else if length v < n' then Some None
              else redact_loop dsn (j + 1 + n') (out @ take n' v))
           else
             (let n = length (takeWhile (\<lambda>c. c \<noteq> CHR '' '') v) in
              redact_loop dsn (j + 1 + n) (out @ (if sensitive_key key then ''xxxxx'' else take n v))))"
        proof -
          have quoted: "j + 1 < length dsn \<and> dsn ! (j + 1) = quote \<longleftrightarrow> v \<noteq> [] \<and> hd v = quote"
            by (auto simp: v_def hd_drop_conv_nth)
          have q: "scan_quoted dsn (j + 1 + 1) = Some (j + 1 + Suc (quoted_len (tl v)))"
            by (simp add: scan_quoted_returns v_def tl_drop drop_Suc)
          have p: "scan_plain dsn (j + 1) = Some (j + 1 + length (takeWhile (\<lambda>c. c \<noteq> CHR '' '') v))"
            by (simp add: scan_plain_returns v_def)
          have len: "j + 1 + n < length dsn \<longleftrightarrow> n < length v" "length dsn < j + 1 + n \<longleftrightarrow> length v < n" for n
            using j by (auto simp: v_def)
          have sl: "slice dsn (j + 1) (j + 1 + n) = take n v" for n
            unfolding slice_take v_def ..
          have cond: "\<not> (length dsn \<le> j \<or> dsn ! j \<noteq> CHR ''='')" using j eq by simp
          have e: "j + 1 + n + 1 = j + 1 + Suc n" for n by simp
          show ?thesis
            using True
            by (subst redact_loop.simps,
                cases "v \<noteq> [] \<and> hd v = quote"; cases "Suc (quoted_len (tl v)) < length v")
              (simp_all only: simp_thms if_True if_False sk sc ke cond Let_def bind.bind_lunit prod.case
                quoted q p len sl e sensitive_key_def out_def append_assoc split: if_split, blast+)
        qed
        show ?thesis
        proof (cases "v \<noteq> [] \<and> hd v = quote")
          case True
          then show ?thesis
            unfolding loop kv redact_value_def Let_def
            by (simp only: if_True simp_thms cont split: if_split) simp
        next
          case False
          then show ?thesis
            unfolding loop kv redact_value_def Let_def by (simp only: if_False cont) simp
        qed
      qed
    qed
  qed
qed

text \<open>The function as called.\<close>

definition kvDSNRedact_loop :: "string \<Rightarrow> string option option" where
  "kvDSNRedact_loop dsn = redact_loop dsn 0 []"

text \<open>C25: The redaction loop ends. On every string, well-formed or not, the nested loops of
  kvDSNRedact return after finitely many steps, and what they return, or the slice they panic
  on, is what the function over the remaining string gives.\<close>

theorem redaction_returns: "kvDSNRedact_loop dsn = Some (kvDSNRedact dsn)"
  by (simp add: kvDSNRedact_loop_def redact_loop_returns option.map_ident)

end
