(* ===== verification/LogQueue.thy ===== *)
theory LogQueue
  imports Logger
begin

text \<open>
  The asynchronous part of internal/logger/db_handler.go as a state machine: any number of
  goroutines in Handle or Stop, interleaved at their atomic operations on the shared state
  (the two loads of \<open>stopped\<close>, the channel send, the store and the close inside
  \<open>once.Do\<close>, the wait for \<open>done\<close>), and the writer goroutine \<open>run\<close>, which receives a record
  and inserts it in two steps. \<open>sent\<close> and \<open>written\<close> record the history: what was put on the
  channel, what the writer inserted; \<open>panicked\<close> the goroutines whose channel operation
  panicked.
\<close>

section \<open>States and steps\<close>

datatype pc = PIdle | PBuilt db_record | PSending db_record | PClosing | PWaiting

datatype writer = WReceive | WInsert db_record | WReturned

record log_sys =
  lq_shared :: shared_stop
  lq_pcs :: "nat \<Rightarrow> pc"
  lq_writer :: writer
  lq_sent :: "db_record list"
  lq_written :: "db_record list"
  lq_panicked :: "nat set"

definition log_init :: log_sys where
  "log_init = \<lparr>lq_shared = new_shared, lq_pcs = (\<lambda>_. PIdle), lq_writer = WReceive, lq_sent = [],
     lq_written = [], lq_panicked = {}\<rparr>"

definition set_pc :: "nat \<Rightarrow> pc \<Rightarrow> log_sys \<Rightarrow> log_sys" where
  "set_pc i p s = s\<lparr>lq_pcs := (lq_pcs s)(i := p)\<rparr>"

text \<open>Goroutine \<open>i\<close> in Handle.\<close>

inductive handle_act :: "nat \<Rightarrow> log_sys \<Rightarrow> log_sys \<Rightarrow> bool" where
  handle_check: "lq_pcs s i = PIdle \<Longrightarrow> \<not> ss_stopped (lq_shared s) \<Longrightarrow>
     handle_act i s (set_pc i (PBuilt rec) s)"
| handle_recheck: "lq_pcs s i = PBuilt rec \<Longrightarrow> \<not> ss_stopped (lq_shared s) \<Longrightarrow>
     handle_act i s (set_pc i (PSending rec) s)"
| handle_stopped: "lq_pcs s i = PBuilt rec \<Longrightarrow> ss_stopped (lq_shared s) \<Longrightarrow>
     handle_act i s (set_pc i PIdle s)"
| handle_send: "lq_pcs s i = PSending rec \<Longrightarrow> send_record rec (lq_shared s) = Some ss \<Longrightarrow>
     length (ss_queue (lq_shared s)) < bufferSize \<Longrightarrow>
     handle_act i s (set_pc i PIdle s\<lparr>lq_shared := ss, lq_sent := lq_sent s @ [rec]\<rparr>)"
| handle_drop: "lq_pcs s i = PSending rec \<Longrightarrow> send_record rec (lq_shared s) = Some ss \<Longrightarrow>
     \<not> length (ss_queue (lq_shared s)) < bufferSize \<Longrightarrow>
     handle_act i s (set_pc i PIdle s\<lparr>lq_shared := ss\<rparr>)"
| handle_panic: "lq_pcs s i = PSending rec \<Longrightarrow> send_record rec (lq_shared s) = None \<Longrightarrow>
     handle_act i s (set_pc i PIdle s\<lparr>lq_panicked := insert i (lq_panicked s)\<rparr>)"

text \<open>
  Goroutine \<open>i\<close> in Stop. Only the first call runs the function given to \<open>once.Do\<close>; a later
  one gets past \<open>once.Do\<close> when that has returned. Then all wait for the writer or the timeout.
\<close>

inductive stop_act :: "nat \<Rightarrow> log_sys \<Rightarrow> log_sys \<Rightarrow> bool" where
  stop_store: "lq_pcs s i = PIdle \<Longrightarrow> \<not> ss_once (lq_shared s) \<Longrightarrow>
     stop_act i s (set_pc i PClosing
       s\<lparr>lq_shared := (lq_shared s)\<lparr>ss_once := True, ss_stopped := True\<rparr>\<rparr>)"
| stop_close: "lq_pcs s i = PClosing \<Longrightarrow> \<not> ss_closed (lq_shared s) \<Longrightarrow>
     stop_act i s (set_pc i PWaiting s\<lparr>lq_shared := (lq_shared s)\<lparr>ss_closed := True\<rparr>\<rparr>)"
| stop_close_panic: "lq_pcs s i = PClosing \<Longrightarrow> ss_closed (lq_shared s) \<Longrightarrow>
     stop_act i s (set_pc i PIdle s\<lparr>lq_panicked := insert i (lq_panicked s)\<rparr>)"
| stop_again: "lq_pcs s i = PIdle \<Longrightarrow> ss_once (lq_shared s) \<Longrightarrow> ss_closed (lq_shared s) \<Longrightarrow>
     stop_act i s (set_pc i PWaiting s)"
| stop_drained: "lq_pcs s i = PWaiting \<Longrightarrow> ss_done (lq_shared s) \<Longrightarrow> stop_act i s (set_pc i PIdle s)"
| stop_timeout: "lq_pcs s i = PWaiting \<Longrightarrow> stop_act i s (set_pc i PIdle s)"

text \<open>The writer goroutine; \<open>None\<close> while it blocks on the open, empty channel and when it has returned.\<close>

definition writer_next :: "log_sys \<Rightarrow> log_sys option" where
  "writer_next s =
     (case lq_writer s of
        WReceive \<Rightarrow>
          (case ss_queue (lq_shared s) of
             rec # q \<Rightarrow> Some (s\<lparr>lq_shared := (lq_shared s)\<lparr>ss_queue := q\<rparr>, lq_writer := WInsert rec\<rparr>)
           | [] \<Rightarrow> if ss_closed (lq_shared s)
                   then Some (s\<lparr>lq_shared := (lq_shared s)\<lparr>ss_done := True\<rparr>, lq_writer := WReturned\<rparr>)
                   else None)
      | WInsert rec \<Rightarrow> Some (s\<lparr>lq_writer := WReceive, lq_written := lq_written s @ [rec]\<rparr>)
      | WReturned \<Rightarrow> None)"

inductive log_step :: "log_sys \<Rightarrow> log_sys \<Rightarrow> bool" where
  by_handle: "handle_act i s t \<Longrightarrow> log_step s t"
| by_stop: "stop_act i s t \<Longrightarrow> log_step s t"
| by_writer: "writer_next s = Some t \<Longrightarrow> log_step s t"

inductive_simps log_step_iff: "log_step s t"

inductive log_reach :: "log_sys \<Rightarrow> bool" where
  reach_init: "log_reach log_init"
| reach_step: "log_reach s \<Longrightarrow> log_step s t \<Longrightarrow> log_reach t"

text \<open>Runs, with the number of steps the writer took.\<close>

inductive log_run :: "nat \<Rightarrow> log_sys \<Rightarrow> log_sys \<Rightarrow> bool" where
  run_refl: "log_run 0 s s"
| run_handle: "log_run n s t \<Longrightarrow> handle_act i t u \<Longrightarrow> log_run n s u"
| run_stop: "log_run n s t \<Longrightarrow> stop_act i t u \<Longrightarrow> log_run n s u"
| run_writer: "log_run n s t \<Longrightarrow> writer_next t = Some u \<Longrightarrow> log_run (Suc n) s u"

section \<open>The invariant\<close>

text \<open>
  Queue bounded and in step with the history; closing happens after stopping, by the one
  goroutine inside \<open>once.Do\<close>, at most once; and the writer returns only after the close,
  with an empty queue.
\<close>

definition in_hand :: "writer \<Rightarrow> db_record list" where
  "in_hand w = (case w of WInsert rec \<Rightarrow> [rec] | _ \<Rightarrow> [])"

lemma in_hand_simps [simp]: "in_hand WReceive = []" "in_hand (WInsert rec) = [rec]" "in_hand WReturned = []"
  by (simp_all add: in_hand_def)

definition log_inv :: "log_sys \<Rightarrow> bool" where
  "log_inv s \<longleftrightarrow>
     length (ss_queue (lq_shared s)) \<le> bufferSize \<and>
     lq_sent s = lq_written s @ in_hand (lq_writer s) @ ss_queue (lq_shared s) \<and>
     (ss_once (lq_shared s) \<longleftrightarrow> ss_stopped (lq_shared s)) \<and>
     (ss_closed (lq_shared s) \<longrightarrow> ss_once (lq_shared s)) \<and>
     (\<forall>i. lq_pcs s i = PClosing \<longrightarrow> ss_once (lq_shared s) \<and> \<not> ss_closed (lq_shared s)) \<and>
     (\<forall>i j. lq_pcs s i = PClosing \<longrightarrow> lq_pcs s j = PClosing \<longrightarrow> i = j) \<and>
     (ss_done (lq_shared s) \<longleftrightarrow> lq_writer s = WReturned) \<and>
     (lq_writer s = WReturned \<longrightarrow> ss_closed (lq_shared s) \<and> ss_queue (lq_shared s) = [])"

lemma log_inv_init: "log_inv log_init"
  by (simp add: log_inv_def log_init_def new_shared_def)

lemma send_record_Some:
  "send_record rec ss = Some ss' \<longleftrightarrow> \<not> ss_closed ss \<and>
    ss' = (if length (ss_queue ss) < bufferSize then ss\<lparr>ss_queue := ss_queue ss @ [rec]\<rparr> else ss)"
  by (auto simp: send_record_def)

lemma send_record_None: "send_record rec ss = None \<longleftrightarrow> ss_closed ss"
  by (simp add: send_record_def)

lemmas queue_simps = log_inv_def set_pc_def send_record_Some send_record_None

lemma handle_act_inv: "handle_act i s t \<Longrightarrow> log_inv s \<Longrightarrow> log_inv t"
  by (induction rule: handle_act.induct) (auto simp: queue_simps)

lemma stop_act_inv: "stop_act i s t \<Longrightarrow> log_inv s \<Longrightarrow> log_inv t"
  by (induction rule: stop_act.induct) (auto simp: queue_simps)

lemma writer_next_inv: "writer_next s = Some t \<Longrightarrow> log_inv s \<Longrightarrow> log_inv t"
  by (auto simp: writer_next_def log_inv_def split: writer.splits list.splits if_splits)

lemma log_step_inv: "log_step s t \<Longrightarrow> log_inv s \<Longrightarrow> log_inv t"
  by (auto simp: log_step_iff intro: handle_act_inv stop_act_inv writer_next_inv)

lemma log_reach_inv: "log_reach s \<Longrightarrow> log_inv s"
  by (induction rule: log_reach.induct) (auto intro: log_inv_init log_step_inv)

section \<open>Draining\<close>

text \<open>How many steps the writer needs until it returns, once the channel is closed.\<close>

definition writer_work :: "log_sys \<Rightarrow> nat" where
  "writer_work s = 2 * length (ss_queue (lq_shared s)) +
     (case lq_writer s of WReceive \<Rightarrow> 1 | WInsert _ \<Rightarrow> 2 | WReturned \<Rightarrow> 0)"

lemma handle_act_closed:
  "handle_act i s t \<Longrightarrow> ss_closed (lq_shared s) \<Longrightarrow>
    lq_shared t = lq_shared s \<and> lq_writer t = lq_writer s \<and> lq_sent t = lq_sent s"
  by (induction rule: handle_act.induct) (auto simp: queue_simps)

lemma stop_act_frame:
  "stop_act i s t \<Longrightarrow> ss_queue (lq_shared t) = ss_queue (lq_shared s) \<and> lq_writer t = lq_writer s \<and>
    lq_sent t = lq_sent s \<and> (ss_closed (lq_shared s) \<longrightarrow> ss_closed (lq_shared t))"
  by (induction rule: stop_act.induct) (auto simp: set_pc_def)

lemma writer_next_work:
  "writer_next s = Some t \<Longrightarrow> log_inv s \<Longrightarrow> Suc (writer_work t) = writer_work s \<and>
    ss_closed (lq_shared t) = ss_closed (lq_shared s) \<and> lq_sent t = lq_sent s"
  by (auto simp: writer_next_def writer_work_def log_inv_def split: writer.splits list.splits if_splits)

lemma writer_never_blocks:
  "ss_closed (lq_shared s) \<Longrightarrow> log_inv s \<Longrightarrow> writer_next s = None \<longleftrightarrow> writer_work s = 0"
  by (auto simp: writer_next_def writer_work_def log_inv_def split: writer.splits list.splits)

lemma log_run_inv: "log_run n s t \<Longrightarrow> log_inv s \<Longrightarrow> log_inv t"
  by (induction rule: log_run.induct) (auto intro: handle_act_inv stop_act_inv writer_next_inv)

lemma log_run_closed:
  "log_run n s t \<Longrightarrow> ss_closed (lq_shared s) \<Longrightarrow> log_inv s \<Longrightarrow>
    n + writer_work t = writer_work s \<and> ss_closed (lq_shared t) \<and> lq_sent t = lq_sent s"
proof (induction rule: log_run.induct)
  case (run_handle n s t i u)
  with handle_act_closed [of i t u] show ?case by (simp add: writer_work_def)
next
  case (run_stop n s t i u)
  with stop_act_frame [of i t u] show ?case by (simp add: writer_work_def)
next
  case (run_writer n s t u)
  with writer_next_work [of t u] log_run_inv [of n s t] show ?case by auto
qed simp

section \<open>Operations run to completion\<close>

text \<open>One Handle, Stop or writer iteration after the other, without interleaving inside them.\<close>

datatype queue_op = QHandle db_handler gotime slog_record | QStop | QWrite

fun run_queue_op :: "queue_op \<Rightarrow> shared_stop \<Rightarrow> shared_stop option" where
  "run_queue_op (QHandle h now r) ss = db_handle h now r ss"
| "run_queue_op QStop ss = Some (stop_signal ss)"
| "run_queue_op QWrite ss =
     Some (if ss_queue ss = [] \<and> ss_closed ss then ss\<lparr>ss_done := True\<rparr>
           else ss\<lparr>ss_queue := tl (ss_queue ss)\<rparr>)"

fun run_queue :: "queue_op list \<Rightarrow> shared_stop \<Rightarrow> shared_stop option" where
  "run_queue [] ss = Some ss"
| "run_queue (x # xs) ss =
     (case run_queue_op x ss of None \<Rightarrow> None | Some ss' \<Rightarrow> run_queue xs ss')"

definition stop_agrees :: "shared_stop \<Rightarrow> bool" where
  "stop_agrees ss \<longleftrightarrow>
     (ss_closed ss \<longleftrightarrow> ss_stopped ss) \<and> (ss_once ss \<longleftrightarrow> ss_stopped ss)"

lemma run_queue_op_agrees:
  "stop_agrees ss \<Longrightarrow> \<exists>ss'. run_queue_op x ss = Some ss' \<and> stop_agrees ss'"
  by (cases x) (auto simp: stop_agrees_def db_handle_def send_record_def stop_signal_def Let_def)

lemma run_queue_agrees: "stop_agrees ss \<Longrightarrow> \<exists>ss'. run_queue xs ss = Some ss' \<and> stop_agrees ss'"
proof (induction xs arbitrary: ss)
  case (Cons x xs)
  then obtain ss' where "run_queue_op x ss = Some ss'" "stop_agrees ss'"
    using run_queue_op_agrees by blast
  with Cons.IH show ?case by simp
qed simp

text \<open>
  The steps refine the operations: a goroutine that is not interrupted does to the shared state
  what Handle and Stop do as a whole.
\<close>

lemma handle_uninterrupted:
  assumes "lq_pcs s i = PIdle" "db_handle h now r (lq_shared s) = Some ss"
  shows "\<exists>t. (handle_act i)\<^sup>*\<^sup>* s t \<and> lq_shared t = ss \<and> lq_pcs t i = PIdle"
proof (cases "ss_stopped (lq_shared s)")
  case True
  with assms show ?thesis by (intro exI [of _ s]) (simp add: db_handle_def)
next
  case False
  let ?rec = "build_record h now r"
  let ?s1 = "set_pc i (PBuilt ?rec) s"
  let ?s2 = "set_pc i (PSending ?rec) ?s1"
  have send: "send_record ?rec (lq_shared ?s2) = Some ss"
    using assms(2) False by (simp add: db_handle_def Let_def set_pc_def)
  have "handle_act i s ?s1" using assms(1) False by (rule handle_check)
  moreover have "handle_act i ?s1 ?s2" using False by (intro handle_recheck) (simp_all add: set_pc_def)
  ultimately have start: "(handle_act i)\<^sup>*\<^sup>* s ?s2" by (meson converse_rtranclp_into_rtranclp rtranclp.rtrancl_refl)
  have pc: "lq_pcs ?s2 i = PSending ?rec" by (simp add: set_pc_def)
  show ?thesis
  proof (cases "length (ss_queue (lq_shared ?s2)) < bufferSize")
    case True
    from rtranclp.rtrancl_into_rtrancl [OF start handle_send [OF pc send True]] show ?thesis
      by (intro exI) (auto simp: set_pc_def)
  next
    case False
    from rtranclp.rtrancl_into_rtrancl [OF start handle_drop [OF pc send False]] show ?thesis
      by (intro exI) (auto simp: set_pc_def)
  qed
qed

lemma stop_uninterrupted:
  assumes "lq_pcs s i = PIdle" "\<not> ss_once (lq_shared s)" "\<not> ss_closed (lq_shared s)"
  shows "\<exists>t. (stop_act i)\<^sup>*\<^sup>* s t \<and> lq_shared t = stop_signal (lq_shared s) \<and> lq_pcs t i = PWaiting"
proof -
  let ?s1 = "set_pc i PClosing s\<lparr>lq_shared := (lq_shared s)\<lparr>ss_once := True, ss_stopped := True\<rparr>\<rparr>"
  let ?s2 = "set_pc i PWaiting ?s1\<lparr>lq_shared := (lq_shared ?s1)\<lparr>ss_closed := True\<rparr>\<rparr>"
  have "stop_act i s ?s1" using assms(1,2) by (rule stop_store)
  moreover have "stop_act i ?s1 ?s2" using assms(3) by (intro stop_close) (simp_all add: set_pc_def)
  ultimately have "(stop_act i)\<^sup>*\<^sup>* s ?s2" by (meson converse_rtranclp_into_rtranclp rtranclp.rtrancl_refl)
  thus ?thesis using assms(2) by (intro exI [of _ ?s2]) (simp add: set_pc_def stop_signal_def)
qed

section \<open>Properties\<close>

definition demo_rec :: db_record where
  "demo_rec = \<lparr>dr_ts = 0, dr_level = ''WARN'', dr_msg = ''m'', dr_attrs = []\<rparr>"

lemmas log_defs = log_init_def new_shared_def set_pc_def

lemma reach_handle: "log_reach s \<Longrightarrow> handle_act i s t \<Longrightarrow> log_reach t"
  by (blast intro: reach_step by_handle)

lemma reach_stop: "log_reach s \<Longrightarrow> stop_act i s t \<Longrightarrow> log_reach t"
  by (blast intro: reach_step by_stop)

text \<open>A goroutine that has passed both checks, the one record it sends, and a closed channel.\<close>

definition demo_sending :: log_sys where
  "demo_sending = set_pc 0 (PSending demo_rec) (set_pc 0 (PBuilt demo_rec) log_init)"

lemma reach_sending: "log_reach demo_sending"
proof -
  have "handle_act 0 log_init (set_pc 0 (PBuilt demo_rec) log_init)"
    by (rule handle_check) (simp_all add: log_defs)
  from reach_handle [OF reach_init this] have "log_reach (set_pc 0 (PBuilt demo_rec) log_init)" .
  moreover have "handle_act 0 (set_pc 0 (PBuilt demo_rec) log_init) demo_sending"
    unfolding demo_sending_def by (rule handle_recheck) (simp_all add: log_defs)
  ultimately show ?thesis by (rule reach_handle)
qed

definition demo_sent :: log_sys where
  "demo_sent = set_pc 0 PIdle demo_sending\<lparr>lq_shared := new_shared\<lparr>ss_queue := [demo_rec]\<rparr>,
     lq_sent := lq_sent demo_sending @ [demo_rec]\<rparr>"

lemma reach_sent: "log_reach demo_sent" "lq_sent demo_sent = [demo_rec]"
proof -
  have "handle_act 0 demo_sending demo_sent"
    unfolding demo_sent_def
    by (rule handle_send) (simp_all add: demo_sending_def log_defs send_record_def bufferSize_def)
  with reach_sending show "log_reach demo_sent" by (rule reach_handle)
qed (simp add: demo_sent_def demo_sending_def log_defs)

definition stopping :: "nat \<Rightarrow> log_sys \<Rightarrow> log_sys" where
  "stopping i s = set_pc i PClosing
     s\<lparr>lq_shared := (lq_shared s)\<lparr>ss_once := True, ss_stopped := True\<rparr>\<rparr>"

definition closed_by :: "nat \<Rightarrow> log_sys \<Rightarrow> log_sys" where
  "closed_by i s = set_pc i PWaiting
     (stopping i s)\<lparr>lq_shared := (lq_shared (stopping i s))\<lparr>ss_closed := True\<rparr>\<rparr>"

lemma reach_closing:
  assumes "log_reach s" "lq_pcs s i = PIdle" "\<not> ss_once (lq_shared s)" "\<not> ss_closed (lq_shared s)"
  shows "log_reach (stopping i s)" "log_reach (closed_by i s)"
proof -
  show st: "log_reach (stopping i s)"
    unfolding stopping_def by (rule reach_stop [OF assms(1) stop_store [OF assms(2,3)]])
  have "stop_act i (stopping i s) (closed_by i s)"
    unfolding closed_by_def using assms(4) by (intro stop_close) (simp_all add: stopping_def set_pc_def)
  with st show "log_reach (closed_by i s)" by (rule reach_stop)
qed

text \<open>C29: In every reachable state of the concurrent logger the buffer holds at most 512
  records, and the records written so far, then the one the writer is inserting, then those
  still queued are exactly the records sent, in order: nothing that was queued is lost,
  duplicated or reordered; once the writer has returned, everything sent has been written.\<close>

theorem queue_bounded_fifo:
  assumes "log_reach s"
  shows "length (ss_queue (lq_shared s)) \<le> 512 \<and>
    lq_sent s = lq_written s @ in_hand (lq_writer s) @ ss_queue (lq_shared s) \<and>
    (ss_done (lq_shared s) \<longrightarrow> lq_written s = lq_sent s)"
  using log_reach_inv [OF assms] by (auto simp: log_inv_def bufferSize_def)

theorem queue_bounded_fifo_witness:
  "lq_sent demo_sent = lq_written demo_sent @ in_hand (lq_writer demo_sent) @ ss_queue (lq_shared demo_sent) \<and>
   lq_sent demo_sent = [demo_rec]"
  using queue_bounded_fifo [OF reach_sent(1)] reach_sent(2) by simp

text \<open>C14: Stop drains the buffer. Once it has closed the channel nothing more is sent, the writer
  never blocks until it has returned, and after as many of its steps as it has work left, at most
  1026, it has returned and every record that was ever sent is written, whatever the other
  goroutines do in between.\<close>

theorem stop_drains:
  assumes "log_reach s" "ss_closed (lq_shared s)" "log_run n s t"
  shows "n \<le> writer_work s \<and> writer_work s \<le> 1026 \<and> lq_sent t = lq_sent s \<and>
    (n < writer_work s \<longrightarrow> writer_next t \<noteq> None) \<and>
    (n = writer_work s \<longrightarrow> ss_done (lq_shared t) \<and> lq_written t = lq_sent s)"
proof -
  have inv: "log_inv s" "log_inv t" using assms(1,3) log_reach_inv log_run_inv by blast+
  note run = log_run_closed [OF assms(3,2) inv(1)]
  have "writer_work s \<le> 1026"
    using inv(1) by (auto simp: log_inv_def writer_work_def bufferSize_def split: writer.split)
  moreover have "ss_done (lq_shared t) \<and> lq_written t = lq_sent t" if "writer_work t = 0"
    using inv(2) that by (auto simp: log_inv_def writer_work_def split: writer.splits)
  moreover have "writer_next t \<noteq> None" if "writer_work t \<noteq> 0"
    using writer_never_blocks [of t] run inv(2) that by auto
  ultimately show ?thesis using run by auto
qed

theorem stop_drains_witness:
  "writer_work (closed_by 1 demo_sent) = 3 \<and> writer_next (closed_by 1 demo_sent) \<noteq> None \<and>
   (\<exists>t. log_run 3 (closed_by 1 demo_sent) t \<and> ss_done (lq_shared t) \<and> lq_written t = [demo_rec])"
proof -
  let ?s = "closed_by 1 demo_sent"
  note defs = closed_by_def stopping_def demo_sent_def demo_sending_def log_defs
  have r: "log_reach ?s" using reach_sent(1) by (rule reach_closing) (simp_all add: demo_sent_def demo_sending_def log_defs)
  have c: "ss_closed (lq_shared ?s)" "lq_sent ?s = [demo_rec]" by (simp_all add: defs)
  have w: "writer_work ?s = 3" by (simp add: defs writer_work_def)
  obtain t1 where t1: "writer_next ?s = Some t1" by (simp add: defs writer_next_def)
  then obtain t2 where t2: "writer_next t1 = Some t2" by (auto simp: defs writer_next_def)
  with t1 obtain t3 where t3: "writer_next t2 = Some t3" by (auto simp: defs writer_next_def)
  have "log_run (Suc (Suc (Suc 0))) ?s t3"
    by (rule run_writer [OF run_writer [OF run_writer [OF run_refl t1] t2] t3])
  hence run: "log_run 3 ?s t3" by (simp add: numeral_3_eq_3)
  show ?thesis
    using stop_drains [OF r c(1) run_refl] stop_drains [OF r c(1) run] w c(2) run by auto
qed

text \<open>The channel is closed at most once however many goroutines call Stop: a
  goroutine that is about to close it finds it open, is alone in that position, and the
  handler is already marked as stopped.\<close>

lemma closes_once:
  assumes "log_reach s" "lq_pcs s i = PClosing"
  shows "\<not> ss_closed (lq_shared s) \<and> ss_stopped (lq_shared s) \<and> (\<forall>j. lq_pcs s j = PClosing \<longrightarrow> j = i)"
  using log_reach_inv [OF assms(1)] assms(2) by (auto simp: log_inv_def)

text \<open>Run one after the other, Handle, Stop and the writer never panic, in any order and
  number, derived handlers and repeated Stop calls included.\<close>

lemma sequential_use_never_panics:
  "\<exists>ss. run_queue ops new_shared = Some ss \<and> stop_agrees ss"
  by (rule run_queue_agrees) (simp add: stop_agrees_def new_shared_def)

text \<open>Interleaved they can. A Handle that has passed its second check can be overtaken
  by Stop, and its send then hits the closed channel: a state in which that goroutine has
  panicked is reachable.\<close>

lemma send_on_closed_reachable: "\<exists>s. log_reach s \<and> 0 \<in> lq_panicked s"
proof -
  let ?s = "closed_by 1 demo_sending"
  note defs = closed_by_def stopping_def demo_sending_def log_defs
  have "log_reach ?s" using reach_sending by (rule reach_closing) (simp_all add: demo_sending_def log_defs)
  moreover have "handle_act 0 ?s (set_pc 0 PIdle ?s\<lparr>lq_panicked := insert 0 (lq_panicked ?s)\<rparr>)"
    by (rule handle_panic [of _ _ demo_rec]) (simp_all add: defs send_record_def)
  ultimately show ?thesis using reach_handle by (fastforce simp: set_pc_def)
qed

end
