(* ===== verification/Process.thy ===== *)
theory Process
  imports LogQueue
begin

text \<open>
  The end of main in cmd/server/main.go (lines 81 to 138) with the goroutines that are running
  then: main itself (goroutine 0), which waits for the signal, shuts the HTTP server down and
  runs its deferred calls; the goroutine of ListenAndServe (1); the clean-up worker (2); the
  request handlers (3 and up); and the writer of the log queue. (The eviction loops of the rate
  limiters neither log nor end.) The goroutines log, so the state holds the whole state of
  theory LogQueue, and every Handle and Stop is interleaved with the others at its atomic
  operations. Of the data of requests nothing is kept here: that is
  theory Server. The theory ends with the invariant of the process and the bound on the steps
  of main.
\<close>

section \<open>Goroutines\<close>

text \<open>
  The statements of the three named goroutines. \<open>ILogging\<close>, \<open>IShutdownWait\<close> and \<open>IStopping\<close>
  stand for a call that has begun. A log call of a level that the database handler is not
  enabled for does not touch the queue.
\<close>

datatype instr =
    ILog level string | ILogging
  | IWait | IShutdown | IShutdownWait | IStop | IStopping | IClosePool | ICancel | IUnregister
  | IListen | ISelect | ICleanup | IExit nat

text \<open>Deferred calls run in the reverse order of their defer statements, when main returns.\<close>

definition deferred :: "instr list" where
  "deferred = [IUnregister, IClosePool, IStop, ICancel]"

definition main_code :: "instr list" where
  "main_code = [IWait, ILog levelInfo ''shutting down'', IShutdown, ILog levelInfo ''server stopped''] @
     rev deferred @ [IExit 0]"

definition server_code :: "instr list" where
  "server_code = [ILog levelInfo ''server starting'', IListen]"

definition worker_code :: "instr list" where
  "worker_code = [ISelect]"

record process =
  pr_level :: level
  pr_log :: log_sys
  pr_code :: "nat \<Rightarrow> instr list"
  pr_signal :: bool
  pr_closing :: bool
  pr_idle :: bool
  pr_forced :: bool
  pr_gave_up :: bool
  pr_pool :: bool
  pr_late :: "db_record list"
  pr_exit :: "nat option"

definition process_init :: "level \<Rightarrow> process" where
  "process_init lv = \<lparr>pr_level = lv, pr_log = log_init,
     pr_code = (\<lambda>_. [])(0 := main_code, 1 := server_code, 2 := worker_code),
     pr_signal = False, pr_closing = False, pr_idle = False, pr_forced = False, pr_gave_up = False,
     pr_pool = True, pr_late = [], pr_exit = None\<rparr>"

definition set_code :: "nat \<Rightarrow> instr list \<Rightarrow> process \<Rightarrow> process" where
  "set_code i c p = p\<lparr>pr_code := (pr_code p)(i := c)\<rparr>"

section \<open>Steps\<close>

text \<open>After an atomic operation of goroutine \<open>i\<close> on the queue: a panic ends the process with code 2.\<close>

definition after_op :: "nat \<Rightarrow> log_sys \<Rightarrow> instr list \<Rightarrow> process \<Rightarrow> process" where
  "after_op i l c p =
     (if i \<in> lq_panicked l then p\<lparr>pr_log := l, pr_exit := Some 2\<rparr>
      else set_code i c (p\<lparr>pr_log := l\<rparr>))"

definition logging :: "nat \<Rightarrow> log_sys \<Rightarrow> instr list \<Rightarrow> instr list" where
  "logging i l c = (if lq_pcs l i = PIdle then c else ILogging # c)"

inductive go_step :: "nat \<Rightarrow> process \<Rightarrow> process \<Rightarrow> bool" where
  log_disabled: "pr_code p i = ILog lv msg # c \<Longrightarrow> lv < pr_level p \<Longrightarrow> go_step i p (set_code i c p)"
| log_stopped: "pr_code p i = ILog lv msg # c \<Longrightarrow> \<not> lv < pr_level p \<Longrightarrow>
     ss_stopped (lq_shared (pr_log p)) \<Longrightarrow> go_step i p (set_code i c p)"
| log_begin: "pr_code p i = ILog lv msg # c \<Longrightarrow> \<not> lv < pr_level p \<Longrightarrow>
     handle_act i (pr_log p) l \<Longrightarrow> lq_pcs l i = PBuilt rec \<Longrightarrow> dr_msg rec = msg \<Longrightarrow>
     go_step i p (after_op i l (ILogging # c) p)"
| log_continue: "pr_code p i = ILogging # c \<Longrightarrow> lq_pcs (pr_log p) i \<noteq> PIdle \<Longrightarrow>
     handle_act i (pr_log p) l \<Longrightarrow> go_step i p (after_op i l (logging i l c) p)"
| wait_signal: "pr_code p i = IWait # c \<Longrightarrow> pr_signal p \<Longrightarrow> go_step i p (set_code i c p)"
| shutdown_begin: "pr_code p i = IShutdown # c \<Longrightarrow>
     go_step i p (set_code i (IShutdownWait # c) p\<lparr>pr_closing := True\<rparr>)"
| shutdown_idle: "pr_code p i = IShutdownWait # c \<Longrightarrow> \<forall>j\<ge>3. lq_pcs (pr_log p) j = PIdle \<Longrightarrow>
     go_step i p (set_code i c p\<lparr>pr_idle := True\<rparr>)"
| shutdown_idle_error: "pr_code p i = IShutdownWait # c \<Longrightarrow> \<forall>j\<ge>3. lq_pcs (pr_log p) j = PIdle \<Longrightarrow>
     go_step i p (set_code i (ILog levelError ''shutdown error'' # c) p\<lparr>pr_idle := True\<rparr>)"
| shutdown_deadline: "pr_code p i = IShutdownWait # c \<Longrightarrow>
     go_step i p (set_code i (ILog levelError ''shutdown error'' # c) p\<lparr>pr_forced := True\<rparr>)"
| stop_begin: "pr_code p i = IStop # c \<Longrightarrow> stop_act i (pr_log p) l \<Longrightarrow>
     go_step i p (after_op i l (IStopping # c) p)"
| stop_continue: "pr_code p i = IStopping # c \<Longrightarrow> lq_pcs (pr_log p) i = PClosing \<Longrightarrow>
     stop_act i (pr_log p) l \<Longrightarrow> go_step i p (after_op i l (IStopping # c) p)"
| stop_done: "pr_code p i = IStopping # c \<Longrightarrow> lq_pcs (pr_log p) i = PWaiting \<Longrightarrow>
     ss_done (lq_shared (pr_log p)) \<Longrightarrow> go_step i p (set_code i c (p\<lparr>pr_log := set_pc i PIdle (pr_log p)\<rparr>))"
| stop_gives_up: "pr_code p i = IStopping # c \<Longrightarrow> lq_pcs (pr_log p) i = PWaiting \<Longrightarrow>
     go_step i p (set_code i c (p\<lparr>pr_log := set_pc i PIdle (pr_log p), pr_gave_up := True\<rparr>))"
| close_pool: "pr_code p i = IClosePool # c \<Longrightarrow> go_step i p (set_code i c p\<lparr>pr_pool := False\<rparr>)"
| cancel_deadline: "pr_code p i = ICancel # c \<Longrightarrow> go_step i p (set_code i c p)"
| unregister: "pr_code p i = IUnregister # c \<Longrightarrow> go_step i p (set_code i c p\<lparr>pr_signal := True\<rparr>)"
| listen_closed: "pr_code p i = IListen # c \<Longrightarrow> pr_closing p \<Longrightarrow> go_step i p (set_code i c p)"
| listen_error: "pr_code p i = IListen # c \<Longrightarrow>
     go_step i p (set_code i (ILog levelError ''server error'' # IExit 1 # c) p)"
| worker_tick: "pr_code p i = ISelect # c \<Longrightarrow> go_step i p (set_code i (ICleanup # ISelect # c) p)"
| worker_done: "pr_code p i = ISelect # c \<Longrightarrow> pr_signal p \<Longrightarrow> go_step i p (set_code i c p)"
| cleanup_done: "pr_code p i = ICleanup # c \<Longrightarrow> go_step i p (set_code i c p)"
| cleanup_failed: "pr_code p i = ICleanup # c \<Longrightarrow>
     go_step i p (set_code i (ILog levelWarn ''expired secret cleanup failed'' # c) p)"
| os_exit: "pr_code p i = IExit n # c \<Longrightarrow> go_step i p (set_code i c p\<lparr>pr_exit := Some n\<rparr>)"

text \<open>
  The whole process. Request handlers log until Shutdown has found every connection idle; their
  panics are recovered. An insert after the pool was closed is lost: \<open>late\<close>.
\<close>

datatype actor = Go nat | Writer | Signal

definition new_writes :: "log_sys \<Rightarrow> log_sys \<Rightarrow> db_record list" where
  "new_writes l l' = drop (length (lq_written l)) (lq_written l')"

inductive proc_step :: "actor \<Rightarrow> process \<Rightarrow> process \<Rightarrow> bool" where
  by_go: "pr_exit p = None \<Longrightarrow> go_step i p q \<Longrightarrow> proc_step (Go i) p q"
| by_request: "pr_exit p = None \<Longrightarrow> 3 \<le> i \<Longrightarrow> \<not> pr_idle p \<Longrightarrow> handle_act i (pr_log p) l \<Longrightarrow>
     proc_step (Go i) p (p\<lparr>pr_log := l\<rparr>)"
| by_log_writer: "pr_exit p = None \<Longrightarrow> writer_next (pr_log p) = Some l \<Longrightarrow>
     proc_step Writer p (p\<lparr>pr_log := l,
       pr_late := pr_late p @ (if pr_pool p then [] else new_writes (pr_log p) l)\<rparr>)"
| by_signal: "pr_exit p = None \<Longrightarrow> proc_step Signal p (p\<lparr>pr_signal := True\<rparr>)"

inductive_cases main_stepE: "proc_step (Go 0) p q"
inductive_cases proc_stepE: "proc_step a p q"

inductive proc_reach :: "process \<Rightarrow> bool" where
  proc_init: "proc_reach (process_init lv)"
| proc_step: "proc_reach p \<Longrightarrow> proc_step a p q \<Longrightarrow> proc_reach q"

text \<open>Runs, with the number of steps main took.\<close>

inductive proc_run :: "nat \<Rightarrow> process \<Rightarrow> process \<Rightarrow> bool" where
  run_start: "proc_run 0 p p"
| run_main: "proc_run n p q \<Longrightarrow> proc_step (Go 0) q r \<Longrightarrow> proc_run (Suc n) p r"
| run_other: "proc_run n p q \<Longrightarrow> proc_step a q r \<Longrightarrow> a \<noteq> Go 0 \<Longrightarrow> proc_run n p r"

section \<open>Where the goroutines can be\<close>

definition after_shutdown :: "instr list" where
  "after_shutdown = [ILog levelInfo ''server stopped'', ICancel, IStop, IClosePool, IUnregister, IExit 0]"

definition main_points :: "instr list list" where
  "main_points =
     [main_code, tl main_code, ILogging # drop 2 main_code, drop 2 main_code,
      IShutdownWait # after_shutdown, ILog levelError ''shutdown error'' # after_shutdown,
      ILogging # after_shutdown, after_shutdown, ILogging # tl after_shutdown, tl after_shutdown,
      [IStop, IClosePool, IUnregister, IExit 0], [IStopping, IClosePool, IUnregister, IExit 0],
      [IClosePool, IUnregister, IExit 0], [IUnregister, IExit 0], [IExit 0], []]"

definition server_points :: "instr list list" where
  "server_points = [server_code, [ILogging, IListen], [IListen],
     [ILog levelError ''server error'', IExit 1], [ILogging, IExit 1], [IExit 1], []]"

definition worker_points :: "instr list list" where
  "worker_points = [[ISelect], [ICleanup, ISelect],
     [ILog levelWarn ''expired secret cleanup failed'', ISelect], [ILogging, ISelect], []]"

definition points :: "nat \<Rightarrow> instr list list" where
  "points i = (if i = 0 then main_points else if i = 1 then server_points
     else if i = 2 then worker_points else [[]])"

lemmas main_defs = main_points_def after_shutdown_def main_code_def deferred_def

lemmas points_defs = points_def server_points_def worker_points_def server_code_def worker_code_def main_defs

definition at_points :: "process \<Rightarrow> bool" where
  "at_points p \<longleftrightarrow> (\<forall>i. pr_code p i \<in> set (points i))"

lemma set_code_at [simp]: "pr_code (set_code i c p) = (pr_code p)(i := c)"
  by (simp add: set_code_def)

lemma set_code_fields [simp]:
  "pr_level (set_code i c p) = pr_level p" "pr_log (set_code i c p) = pr_log p"
  "pr_signal (set_code i c p) = pr_signal p" "pr_closing (set_code i c p) = pr_closing p"
  "pr_idle (set_code i c p) = pr_idle p" "pr_forced (set_code i c p) = pr_forced p"
  "pr_gave_up (set_code i c p) = pr_gave_up p" "pr_pool (set_code i c p) = pr_pool p"
  "pr_late (set_code i c p) = pr_late p" "pr_exit (set_code i c p) = pr_exit p"
  by (simp_all add: set_code_def)

lemma points_cases: "c \<in> set (points i) \<Longrightarrow> c \<noteq> [] \<Longrightarrow> i = 0 \<or> i = 1 \<or> i = 2"
  by (auto simp: points_def split: if_splits)

lemma go_step_points:
  assumes "go_step i p q" "at_points p"
  shows "at_points q"
proof -
  have i: "pr_code p i \<in> set (points i)" using assms(2) by (simp add: at_points_def)
  have "pr_code p i \<noteq> []" using assms(1) by cases simp_all
  with i consider "i = 0" | "i = 1" | "i = 2" using points_cases by blast
  hence "pr_code q i \<in> set (points i)"
  proof cases
    case 1
    from assms(1) i 1 show ?thesis
      by (cases rule: go_step.cases) (auto simp: points_defs after_op_def logging_def)
  next
    case 2
    from assms(1) i 2 show ?thesis
      by (cases rule: go_step.cases) (auto simp: points_defs after_op_def logging_def)
  next
    case 3
    from assms(1) i 3 show ?thesis
      by (cases rule: go_step.cases) (auto simp: points_defs after_op_def logging_def)
  qed
  moreover have "pr_code q j = pr_code p j" if "j \<noteq> i" for j
    using assms(1) that by cases (auto simp: after_op_def)
  ultimately show ?thesis using assms(2) unfolding at_points_def by metis
qed

text \<open>Which goroutine can be at which statement, and what it has left to do.\<close>

fun next_ok :: "nat \<Rightarrow> instr list \<Rightarrow> bool" where
  "next_ok i (IWait # c) \<longleftrightarrow> i = 0 \<and> c = tl main_code"
| "next_ok i (IShutdown # c) \<longleftrightarrow> i = 0 \<and> c = after_shutdown"
| "next_ok i (IShutdownWait # c) \<longleftrightarrow> i = 0 \<and> c = after_shutdown"
| "next_ok i (ICancel # c) \<longleftrightarrow> i = 0 \<and> c = [IStop, IClosePool, IUnregister, IExit 0]"
| "next_ok i (IStop # c) \<longleftrightarrow> i = 0 \<and> c = [IClosePool, IUnregister, IExit 0]"
| "next_ok i (IStopping # c) \<longleftrightarrow> i = 0 \<and> c = [IClosePool, IUnregister, IExit 0]"
| "next_ok i (IClosePool # c) \<longleftrightarrow> i = 0 \<and> c = [IUnregister, IExit 0]"
| "next_ok i (IUnregister # c) \<longleftrightarrow> i = 0 \<and> c = [IExit 0]"
| "next_ok i (IExit n # c) \<longleftrightarrow> (i = 0 \<longleftrightarrow> n = 0) \<and> c = []"
| "next_ok i (IListen # c) \<longleftrightarrow> i = 1"
| "next_ok i (ISelect # c) \<longleftrightarrow> i = 2"
| "next_ok i (ICleanup # c) \<longleftrightarrow> i = 2"
| "next_ok i (ILog lv msg # c) \<longleftrightarrow> i < 3 \<and> (i = 0 \<longrightarrow> IStop \<in> set c)"
| "next_ok i (ILogging # c) \<longleftrightarrow> i < 3 \<and> (i = 0 \<longrightarrow> IStop \<in> set c)"
| "next_ok i [] \<longleftrightarrow> True"

lemma next_ok_points:
  "list_all (next_ok 0) main_points" "list_all (next_ok 1) server_points" "list_all (next_ok 2) worker_points"
  by (simp_all add: points_defs)

lemma at_next: "at_points p \<Longrightarrow> next_ok i (pr_code p i)"
  using next_ok_points unfolding at_points_def list_all_iff
  by (drule_tac x = i in spec) (auto simp: points_def split: if_splits)

section \<open>How the queue moves\<close>

lemma handle_act_frame:
  assumes "handle_act i s t"
  shows "ss_once (lq_shared t) = ss_once (lq_shared s)" "ss_stopped (lq_shared t) = ss_stopped (lq_shared s)"
    "ss_closed (lq_shared t) = ss_closed (lq_shared s)" "ss_done (lq_shared t) = ss_done (lq_shared s)"
    "lq_panicked t = lq_panicked s \<or> ss_closed (lq_shared s) \<and> lq_panicked t = insert i (lq_panicked s)"
    "lq_written t = lq_written s" "lq_writer t = lq_writer s"
    "\<exists>pc. lq_pcs t = (lq_pcs s)(i := pc) \<and> pc \<noteq> PClosing \<and> pc \<noteq> PWaiting"
  using assms by (cases; auto simp: set_pc_def send_record_def split: if_splits)+

lemma stop_act_begin:
  assumes "stop_act i s t" "lq_pcs s i = PIdle" "\<not> ss_once (lq_shared s)" "log_inv s"
  shows "t = stopping i s"
  using assms by cases (auto simp: stopping_def log_inv_def)

lemma stop_act_close:
  assumes "stop_act i s t" "lq_pcs s i = PClosing" "log_inv s"
  shows "t = set_pc i PWaiting s\<lparr>lq_shared := (lq_shared s)\<lparr>ss_closed := True\<rparr>\<rparr>"
  using assms by cases (auto simp: log_inv_def)

lemma writer_next_frame:
  assumes "writer_next s = Some t"
  shows "ss_once (lq_shared t) = ss_once (lq_shared s)" "ss_stopped (lq_shared t) = ss_stopped (lq_shared s)"
    "ss_closed (lq_shared t) = ss_closed (lq_shared s)" "lq_panicked t = lq_panicked s" "lq_pcs t = lq_pcs s"
    "ss_done (lq_shared s) \<Longrightarrow> ss_done (lq_shared t)"
  using assms by (auto simp: writer_next_def split: writer.splits list.splits if_splits)

lemma go_step_log: "go_step i p q \<Longrightarrow> pr_log q = pr_log p \<or> log_step (pr_log p) (pr_log q)"
  by (induction rule: go_step.induct)
    (auto simp: after_op_def intro: by_handle by_stop stop_drained stop_timeout)

lemma proc_step_log: "proc_step a p q \<Longrightarrow> pr_log q = pr_log p \<or> log_step (pr_log p) (pr_log q)"
  by (induction rule: proc_step.induct) (auto dest: go_step_log intro: by_handle by_writer)

lemma proc_reach_log: "proc_reach p \<Longrightarrow> log_reach (pr_log p)"
proof (induction rule: proc_reach.induct)
  case (proc_step p a q)
  with proc_step_log [of a p q] show ?case by (auto intro: reach_step)
qed (simp add: process_init_def reach_init)

section \<open>The protocol of the shutdown\<close>

text \<open>The position inside Handle or Stop fits the statement a goroutine is at.\<close>

fun pc_at :: "instr list \<Rightarrow> pc \<Rightarrow> bool" where
  "pc_at (ILogging # c) pc \<longleftrightarrow> (\<exists>rec. pc = PBuilt rec \<or> pc = PSending rec)"
| "pc_at (IStopping # c) pc \<longleftrightarrow> pc = PClosing \<or> pc = PWaiting"
| "pc_at _ pc \<longleftrightarrow> pc = PIdle"

definition placed :: "process \<Rightarrow> bool" where
  "placed p \<longleftrightarrow> (\<forall>i<3. pc_at (pr_code p i) (lq_pcs (pr_log p) i)) \<and>
     (\<forall>i>0. lq_pcs (pr_log p) i \<noteq> PClosing \<and> lq_pcs (pr_log p) i \<noteq> PWaiting)"

definition stop_returned :: "process \<Rightarrow> bool" where
  "stop_returned p \<longleftrightarrow> IStop \<notin> set (pr_code p 0) \<and> IStopping \<notin> set (pr_code p 0)"

definition shutdown_returned :: "process \<Rightarrow> bool" where
  "shutdown_returned p \<longleftrightarrow> IShutdown \<notin> set (pr_code p 0) \<and> IShutdownWait \<notin> set (pr_code p 0)"

text \<open>
  Main calls Stop after Shutdown has returned, and closes the pool after Stop has; the writer
  is then done unless Stop gave up waiting; and only goroutines that Shutdown does not wait for
  can meet the closed channel.
\<close>

definition flow_inv :: "process \<Rightarrow> bool" where
  "flow_inv p \<longleftrightarrow>
     (IStop \<in> set (pr_code p 0) \<longrightarrow> \<not> ss_once (lq_shared (pr_log p))) \<and>
     (stop_returned p \<longrightarrow> ss_done (lq_shared (pr_log p)) \<or> pr_gave_up p) \<and>
     (shutdown_returned p \<longrightarrow> pr_idle p \<or> pr_forced p) \<and>
     (pr_idle p \<longrightarrow> (\<forall>j\<ge>3. lq_pcs (pr_log p) j = PIdle)) \<and>
     (\<not> pr_pool p \<longrightarrow> stop_returned p) \<and>
     (pr_late p \<noteq> [] \<longrightarrow> pr_gave_up p) \<and>
     0 \<notin> lq_panicked (pr_log p) \<and> (\<forall>i\<in>lq_panicked (pr_log p). 3 \<le> i \<longrightarrow> pr_forced p) \<and>
     (pr_exit p = Some 0 \<longrightarrow> stop_returned p)"

lemmas flow_defs = flow_inv_def stop_returned_def shutdown_returned_def

definition proc_inv :: "process \<Rightarrow> bool" where
  "proc_inv p \<longleftrightarrow> at_points p \<and> log_inv (pr_log p) \<and> flow_inv p \<and>
     (pr_exit p = None \<longrightarrow> placed p \<and> pr_code p 0 \<noteq> [])"

lemma flow_panics:
  assumes "flow_inv p" "i \<in> lq_panicked (pr_log p)"
  shows "i \<noteq> 0 \<and> (3 \<le> i \<longrightarrow> pr_forced p)"
proof -
  have "0 \<notin> lq_panicked (pr_log p)" "\<forall>i\<in>lq_panicked (pr_log p). 3 \<le> i \<longrightarrow> pr_forced p"
    using assms(1) by (simp_all add: flow_inv_def)
  with assms(2) show ?thesis by metis
qed

lemma shutdown_before_stop: "at_points p \<Longrightarrow> IStop \<notin> set (pr_code p 0) \<Longrightarrow> shutdown_returned p"
proof -
  have "list_all (\<lambda>c. IStop \<notin> set c \<longrightarrow> IShutdown \<notin> set c \<and> IShutdownWait \<notin> set c) main_points"
    by (simp add: main_defs)
  thus "at_points p \<Longrightarrow> IStop \<notin> set (pr_code p 0) \<Longrightarrow> shutdown_returned p"
    unfolding at_points_def list_all_iff shutdown_returned_def
    by (drule_tac x = 0 in spec) (auto simp: points_def)
qed

lemma closed_after_shutdown:
  assumes "at_points p" "log_inv (pr_log p)" "flow_inv p" "ss_closed (lq_shared (pr_log p))"
  shows "pr_idle p \<or> pr_forced p" "IStop \<notin> set (pr_code p 0)"
proof -
  show "IStop \<notin> set (pr_code p 0)" using assms(2-4) by (auto simp: log_inv_def flow_inv_def)
  from shutdown_before_stop [OF assms(1) this] assms(3) show "pr_idle p \<or> pr_forced p"
    by (simp add: flow_inv_def)
qed

text \<open>One operation of Handle by goroutine \<open>i\<close>, which moves on to \<open>c\<close>.\<close>

lemma handle_keeps_idle:
  assumes "handle_act i s t" "i < 3 \<or> \<not> idle" "idle \<longrightarrow> (\<forall>j\<ge>3. lq_pcs s j = PIdle)"
  shows "idle \<longrightarrow> (\<forall>j\<ge>3. lq_pcs t j = PIdle)"
proof -
  obtain pc where "lq_pcs t = (lq_pcs s)(i := pc)" using handle_act_frame(8) [OF assms(1)] by blast
  with assms(2,3) show ?thesis by auto
qed

lemma handle_panics:
  assumes "handle_act i s t" "ss_closed (lq_shared s) \<Longrightarrow> i \<noteq> 0 \<and> (3 \<le> i \<longrightarrow> forced)"
    and "0 \<notin> lq_panicked s \<and> (\<forall>i\<in>lq_panicked s. 3 \<le> i \<longrightarrow> forced)"
  shows "0 \<notin> lq_panicked t \<and> (\<forall>i\<in>lq_panicked t. 3 \<le> i \<longrightarrow> forced)"
  using handle_act_frame(5) [OF assms(1)] assms(2,3) by (elim disjE) (simp, auto)

lemma flow_handle:
  assumes "proc_inv p" "handle_act i (pr_log p) l" "i < 3 \<or> \<not> pr_idle p" "i = 0 \<longrightarrow> IStop \<in> set (pr_code p 0)"
  shows "flow_inv (p\<lparr>pr_log := l\<rparr>)" "flow_inv (p\<lparr>pr_log := l, pr_exit := Some 2\<rparr>)"
proof -
  have inv: "at_points p" "log_inv (pr_log p)" and flow: "flow_inv p"
    using assms(1) by (simp_all add: proc_inv_def)
  have idle: "pr_idle p \<longrightarrow> (\<forall>j\<ge>3. lq_pcs l j = PIdle)"
    using flow by (intro handle_keeps_idle [OF assms(2,3)]) (simp add: flow_inv_def)
  have "i \<noteq> 0 \<and> (3 \<le> i \<longrightarrow> pr_forced p)" if "ss_closed (lq_shared (pr_log p))"
    using closed_after_shutdown [OF inv flow that] assms(3,4) by linarith
  hence panic: "0 \<notin> lq_panicked l \<and> (\<forall>i\<in>lq_panicked l. 3 \<le> i \<longrightarrow> pr_forced p)"
    using flow by (intro handle_panics [OF assms(2)]) (simp_all add: flow_inv_def)
  note frame = handle_act_frame(1-4) [OF assms(2)]
  show "flow_inv (p\<lparr>pr_log := l\<rparr>)"
    using flow idle panic unfolding flow_defs by (simp add: frame)
  show "flow_inv (p\<lparr>pr_log := l, pr_exit := Some 2\<rparr>)"
    using flow idle panic unfolding flow_defs by (simp add: frame)
qed

lemma flow_log_code:
  assumes "flow_inv p" "pr_code p i = x # c" "\<And>y. y \<in> {IStop, IStopping, IShutdown, IShutdownWait} \<Longrightarrow>
    y \<in> set c' \<longleftrightarrow> y \<in> set (x # c)"
  shows "flow_inv (set_code i c' p)"
  using assms by (cases "i = 0") (simp_all add: flow_defs)

lemma flow_go:
  assumes "go_step i p q" "proc_inv p" "pr_exit p = None"
  shows "flow_inv q"
proof -
  have inv: "flow_inv p" "log_inv (pr_log p)" "placed p" "next_ok i (pr_code p i)"
    using assms(2,3) at_next by (auto simp: proc_inv_def)
  show ?thesis
    using assms(1)
  proof cases
    case (log_disabled lv msg c)
    from flow_log_code [OF inv(1) this(2), of c] this(1) show ?thesis by auto
  next
    case (log_stopped lv msg c)
    from flow_log_code [OF inv(1) this(2), of c] this(1) show ?thesis by auto
  next
    case (log_begin lv msg c l rec)
    from inv(4) log_begin(2) have "i < 3" "i = 0 \<longrightarrow> IStop \<in> set (pr_code p 0)" by auto
    note h = flow_handle [OF assms(2) log_begin(4) disjI1 [OF this(1)] this(2)]
    from h(2) flow_log_code [OF h(1), of i "ILog lv msg" c "ILogging # c"] log_begin(1,2)
    show ?thesis by (auto simp: after_op_def)
  next
    case (log_continue c l)
    from inv(4) log_continue(2) have "i < 3" "i = 0 \<longrightarrow> IStop \<in> set (pr_code p 0)" by auto
    note h = flow_handle [OF assms(2) log_continue(4) disjI1 [OF this(1)] this(2)]
    have "flow_inv (set_code i (logging i l c) (p\<lparr>pr_log := l\<rparr>))"
      by (rule flow_log_code [OF h(1), of i ILogging c]) (use log_continue(2) in \<open>auto simp: logging_def\<close>)
    with h(2) log_continue(1) show ?thesis by (simp add: after_op_def)
  next
    case (stop_begin c l)
    hence c: "i = 0" "c = [IClosePool, IUnregister, IExit 0]" using inv(4) by auto
    have "pc_at (pr_code p 0) (lq_pcs (pr_log p) 0)" using inv(3) by (simp add: placed_def)
    hence "l = stopping 0 (pr_log p)"
      using stop_begin c inv by (intro stop_act_begin) (auto simp: flow_inv_def)
    thus ?thesis using stop_begin(1,2) c inv(1) by (auto simp: after_op_def flow_defs stopping_def set_pc_def)
  next
    case (stop_continue c l)
    with inv(4) have "i = 0" "c = [IClosePool, IUnregister, IExit 0]" by auto
    moreover from stop_act_close [OF stop_continue(4,3) inv(2)]
    have "l = set_pc i PWaiting (pr_log p)\<lparr>lq_shared := (lq_shared (pr_log p))\<lparr>ss_closed := True\<rparr>\<rparr>" .
    ultimately show ?thesis using stop_continue(1,2) inv(1) by (auto simp: after_op_def flow_defs set_pc_def)
  next
    case (stop_done c)
    with inv(4,1) show ?thesis by (auto simp: flow_defs set_pc_def)
  next
    case (stop_gives_up c)
    with inv(4,1) show ?thesis by (auto simp: flow_defs set_pc_def)
  next
    case (wait_signal c)
    with inv(4,1) show ?thesis by (auto simp: flow_defs main_code_def deferred_def)
  next
    case (shutdown_begin c)
    with inv(4,1) show ?thesis by (auto simp: flow_defs after_shutdown_def)
  next
    case (shutdown_idle c)
    with inv(4,1) show ?thesis by (auto simp: flow_defs after_shutdown_def)
  next
    case (shutdown_idle_error c)
    with inv(4,1) show ?thesis by (auto simp: flow_defs after_shutdown_def)
  next
    case (shutdown_deadline c)
    with inv(4,1) show ?thesis by (auto simp: flow_defs after_shutdown_def)
  qed (use inv(4,1) in \<open>auto simp: flow_defs\<close>)
qed

text \<open>Goroutine \<open>i\<close> stays at a place that fits; the others are where they were.\<close>

lemma placed_update:
  assumes "placed p" "\<And>j. j \<noteq> i \<Longrightarrow> pr_code q j = pr_code p j"
    and "\<And>j. j \<noteq> i \<Longrightarrow> lq_pcs (pr_log q) j = lq_pcs (pr_log p) j"
    and "i < 3 \<Longrightarrow> pc_at (pr_code q i) (lq_pcs (pr_log q) i)"
    and "0 < i \<Longrightarrow> lq_pcs (pr_log q) i \<noteq> PClosing \<and> lq_pcs (pr_log q) i \<noteq> PWaiting"
  shows "placed q"
  using assms unfolding placed_def by metis

lemma pc_at_tail:
  assumes "c \<noteq> [] \<Longrightarrow> hd c \<noteq> ILogging \<and> hd c \<noteq> IStopping"
  shows "pc_at c pc \<longleftrightarrow> pc = PIdle"
  using assms by (cases "(c, pc)" rule: pc_at.cases) auto

text \<open>No goroutine is left in the middle of a call by its next statement.\<close>

definition resumes :: "instr list \<Rightarrow> bool" where
  "resumes c \<longleftrightarrow> (c \<noteq> [] \<longrightarrow> ILogging \<notin> set (tl c) \<and> IStopping \<notin> set (tl c))"

lemma at_resumes: "at_points p \<Longrightarrow> resumes (pr_code p i)"
proof -
  have "list_all resumes main_points" "list_all resumes server_points" "list_all resumes worker_points"
    by (simp_all add: points_defs resumes_def)
  thus "at_points p \<Longrightarrow> resumes (pr_code p i)"
    unfolding at_points_def list_all_iff
    by (drule_tac x = i in spec) (auto simp: points_def resumes_def split: if_splits)
qed

lemma placed_go:
  assumes "go_step i p q" "proc_inv p" "pr_exit p = None" "pr_exit q = None"
  shows "placed q"
proof -
  have inv: "log_inv (pr_log p)" "placed p" "next_ok i (pr_code p i)" "resumes (pr_code p i)" "flow_inv p"
    using assms(2,3) at_next at_resumes by (auto simp: proc_inv_def)
  have others: "pr_code q j = pr_code p j" "lq_pcs (pr_log q) j = lq_pcs (pr_log p) j" if "j \<noteq> i" for j
    using assms(1) that
    by (cases; auto simp: after_op_def set_pc_def dest!: handle_act_frame(8) elim!: stop_act.cases)+
  have "pr_code p i \<noteq> []" using assms(1) by cases simp_all
  hence i: "i < 3" using assms(2) points_cases [of "pr_code p i" i] by (auto simp: proc_inv_def at_points_def)
  have pc: "pc_at (pr_code p i) (lq_pcs (pr_log p) i)" using inv(2) i by (simp add: placed_def)
  have low: "lq_pcs (pr_log p) i \<noteq> PClosing \<and> lq_pcs (pr_log p) i \<noteq> PWaiting" if "0 < i"
    using inv(2) that by (simp add: placed_def)
  have tail: "pc_at c PIdle" if "pr_code p i = x # c" for x c
    using inv(4) that by (cases c) (auto simp: pc_at_tail resumes_def)
  have "pc_at (pr_code q i) (lq_pcs (pr_log q) i) \<and>
      (0 < i \<longrightarrow> lq_pcs (pr_log q) i \<noteq> PClosing \<and> lq_pcs (pr_log q) i \<noteq> PWaiting)"
    using assms(1)
  proof cases
    case (log_begin lv msg c l rec)
    with assms(4) show ?thesis by (auto simp: after_op_def split: if_splits)
  next
    case (log_continue c l)
    have "lq_pcs l i \<noteq> PClosing" "lq_pcs l i \<noteq> PWaiting"
      using handle_act_frame(8) [OF log_continue(4)] by auto
    with log_continue tail assms(4) show ?thesis
      by (cases "lq_pcs l i") (auto simp: after_op_def logging_def split: if_splits)
  next
    case (stop_begin c l)
    hence "i = 0" using inv(3) by simp
    moreover have "l = stopping 0 (pr_log p)"
      using stop_begin \<open>i = 0\<close> pc inv(1,5) by (intro stop_act_begin) (auto simp: flow_inv_def)
    ultimately show ?thesis using stop_begin(1) inv(5) by (simp add: after_op_def stopping_def set_pc_def flow_inv_def)
  next
    case (stop_continue c l)
    hence "i = 0" using inv(3) by simp
    with stop_act_close [OF stop_continue(4,3) inv(1)] stop_continue(1) inv(5) show ?thesis
      by (simp add: after_op_def set_pc_def flow_inv_def)
  next
    case (stop_done c)
    with tail show ?thesis by (simp add: set_pc_def)
  next
    case (stop_gives_up c)
    with tail show ?thesis by (simp add: set_pc_def)
  qed (use pc low tail in \<open>auto simp: assms(4)\<close>)
  with others inv(2) show ?thesis by (intro placed_update [of p i q]) auto
qed

lemma main_not_finished:
  assumes "go_step i p q" "at_points p" "pr_code p 0 \<noteq> []" "pr_exit q = None"
  shows "pr_code q 0 \<noteq> []"
proof (cases "i = 0")
  case True
  from assms(1) at_next [OF assms(2), of 0] assms(3,4) True show ?thesis
    by (cases rule: go_step.cases)
      (auto simp: after_op_def logging_def main_code_def deferred_def after_shutdown_def split: if_splits)
next
  case False
  with assms(1,3) show ?thesis by cases (auto simp: after_op_def)
qed

lemma proc_step_inv:
  assumes "proc_step a p q" "proc_inv p"
  shows "proc_inv q"
proof -
  have log: "log_inv (pr_log q)"
    using proc_step_log [OF assms(1)] assms(2) log_step_inv by (auto simp: proc_inv_def)
  have exit: "pr_exit p = None" using assms(1) by cases
  note inv = assms(2) [unfolded proc_inv_def]
  show ?thesis
    using assms(1)
  proof cases
    case (by_go i)
    have "pr_exit q = None \<longrightarrow> placed q" using placed_go [OF by_go(3) assms(2) exit] by blast
    moreover have "pr_exit q = None \<longrightarrow> pr_code q 0 \<noteq> []"
      using main_not_finished [OF by_go(3)] inv exit by blast
    ultimately show ?thesis
      using go_step_points [OF by_go(3)] flow_go [OF by_go(3) assms(2) exit] inv log by (simp add: proc_inv_def)
  next
    case (by_request i l)
    have "flow_inv q" using flow_handle(1) [OF assms(2) by_request(6)] by_request(2,4,5) by simp
    moreover have "placed q"
      using inv exit by_request(2,4) handle_act_frame(8) [OF by_request(6)]
      by (intro placed_update [of p i q]) auto
    ultimately show ?thesis using inv log exit by_request(2) by (simp add: proc_inv_def at_points_def)
  next
    case (by_log_writer l)
    have "\<not> ss_done (lq_shared (pr_log p))"
      using by_log_writer(4) inv by (auto simp: writer_next_def log_inv_def)
    hence late: "\<not> pr_pool p \<longrightarrow> pr_gave_up p" using inv by (auto simp: flow_inv_def)
    note frame = writer_next_frame [OF by_log_writer(4)]
    have "flow_inv q"
      using inv late frame(6) unfolding by_log_writer(2) flow_defs by (auto simp: frame(1-5))
    moreover have "placed q" using inv exit by_log_writer(2) frame(5) by (simp add: placed_def)
    ultimately show ?thesis using inv log exit by_log_writer(2) by (simp add: proc_inv_def at_points_def)
  next
    case by_signal
    with inv exit show ?thesis by (simp add: proc_inv_def at_points_def placed_def flow_defs)
  qed
qed

lemma proc_inv_init: "proc_inv (process_init lv)"
proof -
  have "at_points (process_init lv)" by (simp add: at_points_def process_init_def points_defs)
  moreover have "flow_inv (process_init lv)"
    by (simp add: flow_defs process_init_def main_code_def deferred_def log_init_def new_shared_def)
  moreover have "pc_at (pr_code (process_init lv) i) PIdle" for i
    by (simp add: process_init_def main_code_def server_code_def worker_code_def)
  moreover have "pr_code (process_init lv) 0 \<noteq> []" by (simp add: process_init_def main_code_def)
  ultimately show ?thesis
    using log_inv_init by (simp add: proc_inv_def placed_def process_init_def log_init_def)
qed

lemma proc_reach_inv: "proc_reach p \<Longrightarrow> proc_inv p"
  by (induction rule: proc_reach.induct) (auto intro: proc_inv_init proc_step_inv)

section \<open>How long the shutdown takes\<close>

fun weight :: "instr \<Rightarrow> nat" where
  "weight (ILog lv msg) = 3"
| "weight IShutdown = 5"
| "weight IShutdownWait = 4"
| "weight IStop = 3"
| "weight _ = 1"

definition list_work :: "instr list \<Rightarrow> nat" where
  "list_work c = sum_list (map weight c)"

fun code_work :: "instr list \<Rightarrow> pc \<Rightarrow> nat" where
  "code_work (x # c) (PBuilt rec) = 1 + weight x + list_work c"
| "code_work (x # c) PClosing = 1 + weight x + list_work c"
| "code_work c _ = list_work c"

text \<open>An upper bound for the number of steps main has left.\<close>

definition main_work :: "process \<Rightarrow> nat" where
  "main_work p = (if pr_exit p = None then code_work (pr_code p 0) (lq_pcs (pr_log p) 0) else 0)"

lemma list_work_simps [simp]: "list_work [] = 0" "list_work (x # c) = weight x + list_work c"
  by (simp_all add: list_work_def)

lemma code_work_idle: "code_work c PIdle = list_work c"
  by (cases c) simp_all

lemma main_work_bound:
  assumes "proc_inv p"
  shows "main_work p \<le> 19"
proof (cases "pr_exit p = None")
  case True
  hence inv: "at_points p" "pc_at (pr_code p 0) (lq_pcs (pr_log p) 0)"
    using assms by (auto simp: proc_inv_def placed_def)
  have "list_all (\<lambda>c. c = main_code \<or> list_work c \<le> 18) main_points" "list_work main_code = 19"
    by (simp_all add: main_defs)
  hence main: "list_work main_code = 19" and "list_work (pr_code p 0) \<le> 18 \<or> pr_code p 0 = main_code"
    using inv(1) by (auto simp: at_points_def points_def list_all_iff dest!: spec [of _ 0])
  from this(2) show ?thesis
  proof
    have "code_work c pc \<le> list_work c + 1" for c pc by (cases "(c, pc)" rule: code_work.cases) auto
    from this [of "pr_code p 0" "lq_pcs (pr_log p) 0"] show "list_work (pr_code p 0) \<le> 18 \<Longrightarrow> main_work p \<le> 19"
      by (simp add: main_work_def)
  next
    assume c: "pr_code p 0 = main_code"
    with inv(2) have "lq_pcs (pr_log p) 0 = PIdle" by (simp add: main_code_def)
    with c main show ?thesis by (simp add: main_work_def code_work_idle)
  qed
qed (auto simp: main_work_def)

lemma handle_act_forward:
  assumes "handle_act i s t" "lq_pcs s i = PBuilt rec"
  shows "lq_pcs t i = PSending rec \<or> lq_pcs t i = PIdle"
  using assms by cases (auto simp: set_pc_def)

lemma handle_act_last:
  assumes "handle_act i s t" "lq_pcs s i = PSending rec"
  shows "lq_pcs t i = PIdle"
  using assms by cases (auto simp: set_pc_def)

lemma handle_act_enabled:
  assumes "lq_pcs s i = PBuilt rec \<or> lq_pcs s i = PSending rec"
  shows "\<exists>t. handle_act i s t"
  using assms
proof
  assume "lq_pcs s i = PBuilt rec"
  thus ?thesis using handle_recheck handle_stopped by (cases "ss_stopped (lq_shared s)") blast+
next
  assume s: "lq_pcs s i = PSending rec"
  show ?thesis
  proof (cases "send_record rec (lq_shared s)")
    case None
    with s show ?thesis using handle_panic by blast
  next
    case (Some ss)
    with s show ?thesis
      using handle_send handle_drop by (cases "length (ss_queue (lq_shared s)) < bufferSize") blast+
  qed
qed

lemma main_work_decreases:
  assumes "go_step 0 p q" "proc_inv p" "pr_exit p = None"
  shows "main_work q < main_work p"
proof -
  have inv: "log_inv (pr_log p)" "pc_at (pr_code p 0) (lq_pcs (pr_log p) 0)" "next_ok 0 (pr_code p 0)"
      "flow_inv p" "resumes (pr_code p 0)"
    using assms(2,3) at_next at_resumes by (auto simp: proc_inv_def placed_def)
  have work: "main_work p = code_work (pr_code p 0) (lq_pcs (pr_log p) 0)" using assms(3) by (simp add: main_work_def)
  have bound: "main_work q \<le> code_work (pr_code q 0) (lq_pcs (pr_log q) 0)" by (simp add: main_work_def)
  show ?thesis
    using assms(1)
  proof cases
    case (log_begin lv msg c l rec)
    have "main_work q \<le> 2 + list_work c" using log_begin(1,5) by (simp add: main_work_def after_op_def)
    thus ?thesis using inv(2) log_begin(2) by (simp add: work)
  next
    case (log_continue c l)
    obtain rec where pc: "lq_pcs (pr_log p) 0 = PBuilt rec \<or> lq_pcs (pr_log p) 0 = PSending rec"
      using inv(2) log_continue(2) by auto
    hence "lq_pcs l 0 = PIdle \<or> lq_pcs (pr_log p) 0 = PBuilt rec \<and> lq_pcs l 0 = PSending rec"
      using handle_act_forward [OF log_continue(4)] handle_act_last [OF log_continue(4)] by blast
    thus ?thesis
      using pc log_continue(1,2)
      by (auto simp: assms(3) work main_work_def after_op_def logging_def code_work_idle)
  next
    case (stop_begin c l)
    have "l = stopping 0 (pr_log p)"
      using stop_begin inv by (intro stop_act_begin) (auto simp: flow_inv_def)
    thus ?thesis
      using stop_begin(1,2) inv(2) by (auto simp: assms(3) work main_work_def after_op_def stopping_def set_pc_def)
  next
    case (stop_continue c l)
    from stop_act_close [OF stop_continue(4,3) inv(1)] show ?thesis
      using stop_continue(1-3) by (auto simp: assms(3) work main_work_def after_op_def set_pc_def)
  qed (use inv(2,3) in \<open>auto simp: assms(3) work main_work_def code_work_idle set_pc_def main_code_def deferred_def\<close>)
qed

lemma main_work_others:
  assumes "proc_step a p q" "a \<noteq> Go 0" "proc_inv p"
  shows "main_work q \<le> main_work p"
proof -
  have exit: "pr_exit p = None" using assms(1) by cases
  have "pr_code q 0 = pr_code p 0 \<and> lq_pcs (pr_log q) 0 = lq_pcs (pr_log p) 0"
    using assms(1)
  proof cases
    case (by_go i)
    hence "i \<noteq> 0" using assms(2) by simp
    with by_go(3) show ?thesis
      by cases (auto simp: after_op_def set_pc_def dest!: handle_act_frame(8) elim!: stop_act.cases)
  next
    case (by_request i l)
    with handle_act_frame(8) [OF by_request(6)] show ?thesis by auto
  next
    case (by_log_writer l)
    with writer_next_frame(5) [OF by_log_writer(4)] show ?thesis by simp
  qed simp
  thus ?thesis using exit by (simp add: main_work_def)
qed

lemma main_progress:
  assumes "proc_inv p" "pr_exit p = None" "pr_signal p"
  shows "\<exists>q. go_step 0 p q"
proof -
  have inv: "log_inv (pr_log p)" "pc_at (pr_code p 0) (lq_pcs (pr_log p) 0)" "next_ok 0 (pr_code p 0)" "flow_inv p"
      "pr_code p 0 \<noteq> []"
    using assms(1,2) at_next by (auto simp: proc_inv_def placed_def)
  obtain x c where code: "pr_code p 0 = x # c" using inv(5) by (cases "pr_code p 0") auto
  show ?thesis
  proof (cases x)
    case (ILog lv msg)
    have pc: "lq_pcs (pr_log p) 0 = PIdle" using inv(2) code ILog by simp
    show ?thesis
    proof (cases "lv < pr_level p \<or> ss_stopped (lq_shared (pr_log p))")
      case True
      thus ?thesis using code ILog log_disabled log_stopped by blast
    next
      case False
      let ?rec = "\<lparr>dr_ts = 0, dr_level = [], dr_msg = msg, dr_attrs = []\<rparr>"
      have "handle_act 0 (pr_log p) (set_pc 0 (PBuilt ?rec) (pr_log p))" using pc False by (intro handle_check) auto
      from log_begin [OF code [unfolded ILog] _ this, of ?rec] False show ?thesis by (auto simp: set_pc_def)
    qed
  next
    case ILogging
    with inv(2) code obtain rec where "lq_pcs (pr_log p) 0 = PBuilt rec \<or> lq_pcs (pr_log p) 0 = PSending rec"
      by auto
    moreover from handle_act_enabled [OF this] obtain l where "handle_act 0 (pr_log p) l" by blast
    ultimately show ?thesis using code ILogging log_continue [of p 0 c l] by auto
  next
    case IStop
    have "lq_pcs (pr_log p) 0 = PIdle" "\<not> ss_once (lq_shared (pr_log p))"
      using inv(2,4) code IStop by (auto simp: flow_inv_def)
    from stop_begin [OF code [unfolded IStop] stop_store [OF this]] show ?thesis by blast
  next
    case IStopping
    with inv(2) code consider "lq_pcs (pr_log p) 0 = PClosing" | "lq_pcs (pr_log p) 0 = PWaiting" by auto
    thus ?thesis
    proof cases
      case 1
      with inv(1) have "\<not> ss_closed (lq_shared (pr_log p))" by (auto simp: log_inv_def)
      from stop_continue [OF code [unfolded IStopping] 1 stop_close [OF 1 this]] show ?thesis by blast
    next
      case 2
      from stop_gives_up [OF code [unfolded IStopping] 2] show ?thesis by blast
    qed
  qed (use code inv(3) assms(3) in \<open>auto intro: wait_signal shutdown_begin shutdown_deadline close_pool
    cancel_deadline unregister os_exit\<close>)
qed

lemma proc_run_inv: "proc_run n p q \<Longrightarrow> proc_inv p \<Longrightarrow> proc_inv q"
  by (induction rule: proc_run.induct) (auto intro: proc_step_inv)

lemma proc_run_work: "proc_run n p q \<Longrightarrow> proc_inv p \<Longrightarrow> n + main_work q \<le> main_work p"
proof (induction rule: proc_run.induct)
  case (run_main n p q r)
  hence inv: "proc_inv q" using proc_run_inv by blast
  have "pr_exit q = None" "go_step 0 q r" using run_main.hyps(2) by (auto elim: main_stepE)
  hence "main_work r < main_work q" using main_work_decreases inv by blast
  with run_main show ?case by simp
next
  case (run_other n p q a r)
  with main_work_others [of a q r] proc_run_inv [of n p q] show ?case by force
qed simp

lemma signal_stays: "proc_step a p q \<Longrightarrow> pr_signal p \<Longrightarrow> pr_signal q"
  by (auto elim!: proc_stepE go_step.cases simp: after_op_def)

lemma run_signal: "proc_run n p q \<Longrightarrow> pr_signal p \<Longrightarrow> pr_signal q"
  by (induction rule: proc_run.induct) (auto intro: signal_stays)

end
