(* ===== verification/Shutdown.thy ===== *)
theory Shutdown
  imports Process
begin

text \<open>
  What the shutdown of the process guarantees, and two runs of it that end badly. The first
  section builds reachable states: a goroutine up to its send on the log queue, main up to
  Stop, and the closed channel.
\<close>

section \<open>Runs of the process\<close>

lemma set_pc_twice [simp]: "set_pc i a (set_pc i b s) = set_pc i a s"
  by (simp add: set_pc_def)

lemma set_code_twice [simp]: "set_code i a (set_code i b p) = set_code i a p"
  by (simp add: set_code_def)

lemma set_code_commutes [simp]:
  "set_code i c p\<lparr>pr_closing := b\<rparr> = set_code i c (p\<lparr>pr_closing := b\<rparr>)"
  "set_code i c p\<lparr>pr_idle := b\<rparr> = set_code i c (p\<lparr>pr_idle := b\<rparr>)"
  "set_code i c p\<lparr>pr_log := l\<rparr> = set_code i c (p\<lparr>pr_log := l\<rparr>)"
  by (simp_all add: set_code_def)

lemma reach_go: "proc_reach p \<Longrightarrow> pr_exit p = None \<Longrightarrow> go_step i p q \<Longrightarrow> proc_reach q"
  by (blast intro: proc_reach.proc_step by_go)

lemma reach_op:
  "proc_reach p \<Longrightarrow> pr_exit p = None \<Longrightarrow> go_step i p (after_op i l c p) \<Longrightarrow> i \<notin> lq_panicked l \<Longrightarrow>
    proc_reach (set_code i c (p\<lparr>pr_log := l\<rparr>))"
  using reach_go [of p i "after_op i l c p"] by (simp add: after_op_def)

lemma reach_writer:
  assumes "proc_reach p" "pr_exit p = None" "pr_pool p" "writer_next (pr_log p) = Some l"
  shows "proc_reach (p\<lparr>pr_log := l\<rparr>)"
  using proc_reach.proc_step [OF assms(1) by_log_writer [OF assms(2,4)]] assms(3) by (cases p) simp

text \<open>A goroutine logs a record of an enabled level, up to the send.\<close>

lemma reach_sends:
  assumes "proc_reach p" "pr_exit p = None" "pr_code p i = ILog lv msg # c" "pr_level p \<le> lv"
    and "lq_pcs (pr_log p) i = PIdle" "\<not> ss_stopped (lq_shared (pr_log p))" "i \<notin> lq_panicked (pr_log p)"
    and "dr_msg rec = msg"
  shows "proc_reach (set_code i (ILogging # c) (p\<lparr>pr_log := set_pc i (PSending rec) (pr_log p)\<rparr>))"
proof -
  let ?l = "set_pc i (PBuilt rec) (pr_log p)"
  have "\<not> lv < pr_level p" using assms(4) by simp
  hence "go_step i p (after_op i ?l (ILogging # c) p)"
    using assms by (intro log_begin [where rec = rec] handle_check) (auto simp: set_pc_def)
  from reach_op [OF assms(1,2) this] have r: "proc_reach (set_code i (ILogging # c) (p\<lparr>pr_log := ?l\<rparr>))"
    using assms(7) by (simp add: set_pc_def)
  let ?p = "set_code i (ILogging # c) (p\<lparr>pr_log := ?l\<rparr>)" and ?l' = "set_pc i (PSending rec) ?l"
  have "handle_act i ?l ?l'" using assms(6) by (intro handle_recheck) (simp_all add: set_pc_def)
  hence "go_step i ?p (after_op i ?l' (logging i ?l' c) ?p)"
    by (intro log_continue) (simp_all, simp add: set_pc_def)
  from reach_op [OF r _ this] show ?thesis using assms(2,7) by (simp add: set_pc_def logging_def)
qed

text \<open>After the signal main gets to Stop if the handlers are idle, and closes the channel.\<close>

definition at_stop :: "process \<Rightarrow> process" where
  "at_stop p = set_code 0 [IStop, IClosePool, IUnregister, IExit 0] (p\<lparr>pr_closing := True, pr_idle := True\<rparr>)"

lemma reach_at_stop:
  assumes "proc_reach p" "pr_exit p = None" "pr_code p 0 = main_code" "pr_signal p" "levelInfo < pr_level p"
    and "\<forall>j\<ge>3. lq_pcs (pr_log p) j = PIdle"
  shows "proc_reach (at_stop p)"
proof -
  let ?p1 = "set_code 0 (tl main_code) p" and ?p2 = "set_code 0 (IShutdown # after_shutdown) p"
  let ?p3 = "set_code 0 (IShutdownWait # after_shutdown) (p\<lparr>pr_closing := True\<rparr>)"
  let ?p4 = "set_code 0 after_shutdown (p\<lparr>pr_closing := True, pr_idle := True\<rparr>)"
  let ?p5 = "set_code 0 (tl after_shutdown) (p\<lparr>pr_closing := True, pr_idle := True\<rparr>)"
  have "proc_reach ?p1"
    using assms(3,4) by (intro reach_go [OF assms(1,2), of 0] wait_signal) (simp_all add: main_code_def)
  from reach_go [OF this _ log_disabled [of _ 0 levelInfo "''shutting down''" "IShutdown # after_shutdown"]]
  have "proc_reach ?p2"
    using assms(2,5) by (simp add: main_code_def deferred_def after_shutdown_def)
  from reach_go [OF this _ shutdown_begin [of _ 0 after_shutdown]]
  have "proc_reach ?p3" using assms(2) by simp
  from reach_go [OF this _ shutdown_idle [of _ 0 after_shutdown]]
  have "proc_reach ?p4" using assms(2,6) by simp
  from reach_go [OF this _ log_disabled [of _ 0 levelInfo "''server stopped''" "tl after_shutdown"]]
  have "proc_reach ?p5" using assms(2,5) by (simp add: after_shutdown_def)
  from reach_go [OF this _ cancel_deadline [of _ 0 "[IStop, IClosePool, IUnregister, IExit 0]"]]
  have "proc_reach (set_code 0 [IStop, IClosePool, IUnregister, IExit 0] ?p5)"
    using assms(2) by (simp add: after_shutdown_def)
  thus ?thesis by (simp add: at_stop_def)
qed

definition at_close :: "process \<Rightarrow> process" where
  "at_close p = set_code 0 [IStopping, IClosePool, IUnregister, IExit 0]
     (at_stop p\<lparr>pr_log := closed_by 0 (pr_log p)\<rparr>)"

lemma reach_at_close:
  assumes "proc_reach (at_stop p)" "pr_exit p = None" "lq_pcs (pr_log p) 0 = PIdle"
    and "\<not> ss_once (lq_shared (pr_log p))" "\<not> ss_closed (lq_shared (pr_log p))" "0 \<notin> lq_panicked (pr_log p)"
  shows "proc_reach (at_close p)"
proof -
  let ?c = "[IClosePool, IUnregister, IExit 0]" and ?l = "stopping 0 (pr_log p)"
  let ?p = "set_code 0 (IStopping # ?c) (at_stop p\<lparr>pr_log := ?l\<rparr>)"
  have "stop_act 0 (pr_log p) ?l" using assms(3,4) unfolding stopping_def by (rule stop_store)
  hence "go_step 0 (at_stop p) (after_op 0 ?l (IStopping # ?c) (at_stop p))"
    by (intro stop_begin) (simp_all add: at_stop_def)
  from reach_op [OF assms(1) _ this] have r: "proc_reach ?p"
    using assms(2,6) by (simp add: at_stop_def stopping_def set_pc_def)
  have "stop_act 0 ?l (closed_by 0 (pr_log p))"
    using assms(5) unfolding closed_by_def by (intro stop_close) (simp_all add: stopping_def set_pc_def)
  hence "go_step 0 ?p (after_op 0 (closed_by 0 (pr_log p)) (IStopping # ?c) ?p)"
    by (intro stop_continue) (simp_all, simp add: stopping_def set_pc_def)
  from reach_op [OF r _ this] show ?thesis
    using assms(2,6) by (simp add: at_close_def at_stop_def closed_by_def stopping_def set_pc_def)
qed

section \<open>Properties\<close>


definition demo_signalled :: process where
  "demo_signalled = (process_init levelWarn)\<lparr>pr_signal := True\<rparr>"

lemma reach_signalled: "proc_reach demo_signalled" "pr_signal demo_signalled" "pr_exit demo_signalled = None"
  unfolding demo_signalled_def using proc_reach.proc_step [OF proc_init by_signal]
  by (simp_all add: process_init_def)



text \<open>From a closed, empty queue the process exits cleanly.\<close>

definition drained :: "log_sys \<Rightarrow> log_sys" where
  "drained l = l\<lparr>lq_shared := (lq_shared l)\<lparr>ss_done := True\<rparr>, lq_writer := WReturned\<rparr>"

definition demo_exited :: process where
  "demo_exited = set_code 0 [] (at_stop demo_signalled\<lparr>
     pr_log := set_pc 0 PIdle (drained (closed_by 0 log_init)), pr_pool := False, pr_signal := True\<rparr>)
     \<lparr>pr_exit := Some 0\<rparr>"

lemma demo_log: "pr_log demo_signalled = log_init" "pr_exit demo_signalled = None" "pr_level demo_signalled = levelWarn"
    "pr_code demo_signalled = (\<lambda>_. [])(0 := main_code, 1 := server_code, 2 := worker_code)"
    "pr_pool demo_signalled" "pr_late demo_signalled = []" "\<not> pr_gave_up demo_signalled"
    "\<not> pr_forced demo_signalled"
  by (simp_all add: demo_signalled_def process_init_def)

lemma info_below_warn: "levelInfo < levelWarn"
  by (simp add: level_simps)

lemma reach_exited: "proc_reach demo_exited"
proof -
  let ?s = "at_stop demo_signalled" and ?l = "closed_by 0 log_init" and ?c = "[IClosePool, IUnregister, IExit 0]"
  note defs = at_close_def at_stop_def demo_log
  have "proc_reach ?s"
    using reach_signalled info_below_warn
    by (intro reach_at_stop) (simp_all add: demo_log, simp_all add: log_init_def)
  hence "proc_reach (at_close demo_signalled)"
    by (rule reach_at_close) (simp_all add: demo_log, simp_all add: log_init_def new_shared_def)
  hence "proc_reach (at_close demo_signalled\<lparr>pr_log := drained ?l\<rparr>)"
    by (rule reach_writer)
      (simp_all add: defs, simp add: writer_next_def drained_def closed_by_def stopping_def log_defs)
  hence "proc_reach (set_code 0 (IStopping # ?c) (?s\<lparr>pr_log := drained ?l\<rparr>))"
    by (simp add: at_close_def)
  from reach_go [OF this _ stop_done [of _ 0 ?c]]
  have "proc_reach (set_code 0 ?c (?s\<lparr>pr_log := set_pc 0 PIdle (drained ?l)\<rparr>))" (is "proc_reach ?p2")
    by (simp add: defs) (simp add: drained_def closed_by_def stopping_def log_defs)
  from reach_go [OF this _ close_pool [of _ 0 "[IUnregister, IExit 0]"]]
  have "proc_reach (set_code 0 [IUnregister, IExit 0] ?p2\<lparr>pr_pool := False\<rparr>)" (is "proc_reach ?p3")
    by (simp add: defs)
  from reach_go [OF this _ unregister [of _ 0 "[IExit 0]"]]
  have "proc_reach (set_code 0 [IExit 0] ?p3\<lparr>pr_signal := True\<rparr>)" (is "proc_reach ?p4")
    by (simp add: defs)
  from reach_go [OF this _ os_exit [of _ 0 0 "[]"]]
  have "proc_reach (set_code 0 [] ?p4\<lparr>pr_exit := Some 0\<rparr>)"
    by (simp add: defs)
  thus ?thesis by (simp add: demo_exited_def set_code_def)
qed


text \<open>The clean-up worker in the middle of a log call when main gets to Stop.\<close>

definition worker_sending :: process where
  "worker_sending = set_code 2 [ILogging, ISelect] (demo_signalled\<lparr>pr_log := set_pc 2 (PSending
     (demo_rec\<lparr>dr_msg := ''expired secret cleanup failed''\<rparr>)) log_init\<rparr>)"

definition worker_crashed :: process where
  "worker_crashed = at_close worker_sending\<lparr>
     pr_log := set_pc 2 PIdle (closed_by 0 (pr_log worker_sending))\<lparr>lq_panicked := {2}\<rparr>, pr_exit := Some 2\<rparr>"

lemma worker_sending_fields:
  "pr_log worker_sending = set_pc 2 (PSending (demo_rec\<lparr>dr_msg := ''expired secret cleanup failed''\<rparr>)) log_init"
  "pr_exit worker_sending = None" "pr_level worker_sending = levelWarn" "pr_signal worker_sending"
  "pr_code worker_sending 0 = main_code" "pr_code worker_sending 2 = [ILogging, ISelect]"
  "\<not> pr_forced worker_sending" "\<not> pr_gave_up worker_sending"
  by (simp_all add: worker_sending_def demo_log reach_signalled(2))

lemma reach_crashed: "proc_reach worker_crashed"
proof -
  let ?msg = "''expired secret cleanup failed''" and ?p = demo_signalled
  from reach_go [OF reach_signalled(1) _ worker_tick [of _ 2 "[]"]]
  have "proc_reach (set_code 2 [ICleanup, ISelect] ?p)" by (simp add: demo_log worker_code_def)
  from reach_go [OF this _ cleanup_failed [of _ 2 "[ISelect]"]]
  have "proc_reach (set_code 2 [ILog levelWarn ?msg, ISelect] ?p)" (is "proc_reach ?q") by (simp add: demo_log)
  from reach_sends [OF this, of 2 levelWarn ?msg "[ISelect]" "demo_rec\<lparr>dr_msg := ?msg\<rparr>"]
  have "proc_reach worker_sending"
    by (simp add: demo_log worker_sending_def) (simp add: log_init_def new_shared_def)
  hence "proc_reach (at_stop worker_sending)"
    using info_below_warn
    by (intro reach_at_stop) (simp_all add: worker_sending_fields, simp_all add: log_defs)
  hence r: "proc_reach (at_close worker_sending)"
    by (rule reach_at_close) (simp_all add: worker_sending_fields, simp_all add: log_defs)
  let ?l = "closed_by 0 (pr_log worker_sending)"
  have "handle_act 2 ?l (set_pc 2 PIdle ?l\<lparr>lq_panicked := insert 2 (lq_panicked ?l)\<rparr>)" (is "handle_act 2 ?l ?l'")
    by (rule handle_panic)
      (simp_all add: worker_sending_fields closed_by_def stopping_def log_defs send_record_def)
  hence "go_step 2 (at_close worker_sending) (after_op 2 ?l' (logging 2 ?l' [ISelect]) (at_close worker_sending))"
    by (intro log_continue) (simp_all add: at_close_def at_stop_def worker_sending_fields,
      simp add: closed_by_def stopping_def log_defs)
  from reach_go [OF r _ this] show ?thesis
    by (simp add: after_op_def worker_crashed_def at_close_def at_stop_def worker_sending_fields)
      (simp add: closed_by_def stopping_def log_defs)
qed

text \<open>C36: Who can panic at shutdown. Only a log call that Shutdown does not wait for: main never
  panics, and a request handler only when Shutdown ran into its deadline of ten seconds. But
  nothing waits for the clean-up worker: when its clean-up fails at that moment, its warning
  can hit the channel that Stop has just closed, and the process ends with a panic, code 2,
  although all requests had been served and no timeout was reached.\<close>

theorem shutdown_panics:
  "(\<forall>p i. proc_reach p \<and> i \<in> lq_panicked (pr_log p) \<longrightarrow> i \<noteq> 0 \<and> (3 \<le> i \<longrightarrow> pr_forced p)) \<and>
   (\<exists>p. proc_reach p \<and> pr_exit p = Some 2 \<and> lq_panicked (pr_log p) = {2} \<and> pr_idle p \<and>
     \<not> pr_forced p \<and> \<not> pr_gave_up p)"
proof
  show "\<forall>p i. proc_reach p \<and> i \<in> lq_panicked (pr_log p) \<longrightarrow> i \<noteq> 0 \<and> (3 \<le> i \<longrightarrow> pr_forced p)"
    using flow_panics proc_reach_inv unfolding proc_inv_def by blast
  show "\<exists>p. proc_reach p \<and> pr_exit p = Some 2 \<and> lq_panicked (pr_log p) = {2} \<and> pr_idle p \<and>
      \<not> pr_forced p \<and> \<not> pr_gave_up p"
    using reach_crashed
    by (intro exI [of _ worker_crashed])
      (simp add: worker_crashed_def at_close_def at_stop_def worker_sending_fields)
qed

theorem shutdown_panics_witness: "0 \<notin> lq_panicked (pr_log worker_crashed)"
  using shutdown_panics [THEN conjunct1, rule_format, of worker_crashed 0] reach_crashed by blast

text \<open>C37: The record of a fatal server error is lost to the log table. The goroutine of
  ListenAndServe queues it and exits at once; os.Exit runs no deferred call, so nobody drains
  the buffer: a state is reachable where the process has exited with code 1 and the record
  is on the channel but not written.\<close>

theorem fatal_error_not_logged:
  "\<exists>p rec. proc_reach p \<and> pr_exit p = Some 1 \<and> rec \<in> set (lq_sent (pr_log p)) \<and>
     dr_msg rec = ''server error'' \<and> lq_written (pr_log p) = []"
proof -
  let ?p = "process_init levelWarn" and ?msg = "''server error''" and ?rec = "demo_rec\<lparr>dr_msg := ''server error''\<rparr>"
  let ?l = "set_pc 1 (PSending ?rec) log_init"
  note init = process_init_def server_code_def
  from reach_go [OF proc_init [of levelWarn] _ log_disabled [of _ 1 levelInfo "''server starting''" "[IListen]"]]
  have "proc_reach (set_code 1 [IListen] ?p)" using info_below_warn by (simp add: init)
  from reach_go [OF this _ listen_error [of _ 1 "[]"]]
  have "proc_reach (set_code 1 [ILog levelError ?msg, IExit 1] ?p)" by (simp add: init)
  from reach_sends [OF this, of 1 levelError ?msg "[IExit 1]" ?rec]
  have r: "proc_reach (set_code 1 [ILogging, IExit 1] (?p\<lparr>pr_log := ?l\<rparr>))" (is "proc_reach ?q")
    by (simp add: init level_simps) (simp add: log_init_def new_shared_def)
  obtain ss where ss: "send_record ?rec (lq_shared ?l) = Some ss"
    by (simp add: send_record_def log_defs bufferSize_def)
  let ?l' = "set_pc 1 PIdle ?l\<lparr>lq_shared := ss, lq_sent := lq_sent ?l @ [?rec]\<rparr>"
  have "handle_act 1 ?l ?l'"
    using ss by (intro handle_send [of _ _ ?rec]) (simp_all add: log_defs bufferSize_def)
  hence "go_step 1 ?q (after_op 1 ?l' (logging 1 ?l' [IExit 1]) ?q)"
    by (intro log_continue) (simp_all, simp add: set_pc_def)
  from reach_op [OF r _ this] have "proc_reach (set_code 1 [IExit 1] (?p\<lparr>pr_log := ?l'\<rparr>))"
    by (simp add: init) (simp add: log_defs logging_def)
  from reach_go [OF this _ os_exit [of _ 1 1 "[]"]]
  have "proc_reach (set_code 1 [] (?p\<lparr>pr_log := ?l'\<rparr>)\<lparr>pr_exit := Some 1\<rparr>)" (is "proc_reach ?z")
    by (simp add: init)
  moreover have "pr_exit ?z = Some 1" "?rec \<in> set (lq_sent (pr_log ?z))" "lq_written (pr_log ?z) = []"
    by (simp_all add: log_defs)
  ultimately show ?thesis by (intro exI [of _ ?z] exI [of _ ?rec]) simp
qed

end
